theory Spec2Isabelle
  imports Complex_Main
begin

section \<open>Identifiers built by string formatting\<close>

text \<open>
  The detectors key their per-camera dictionaries by formatted strings:
  \<^verbatim>\<open>f"worker_{camera_id}_{i}"\<close> and \<^verbatim>\<open>f"{worker_id}_machine_{j}"\<close>
  (detection.py, lines 78, 234, 253, 272). The camera identifier reaches the detectors
  from the route \<^verbatim>\<open>/video_feed/<int:camera_id>\<close>, an unsigned integer, and
  the indices come from \<^verbatim>\<open>enumerate\<close>; both are rendered in decimal.
\<close>

type_synonym camera_id = nat

definition digit_char :: "nat \<Rightarrow> char" where
  "digit_char d = ''0123456789'' ! d"

fun str_nat :: "nat \<Rightarrow> string" where
  "str_nat n = (if n < 10 then [digit_char n] else str_nat (n div 10) @ [digit_char (n mod 10)])"

declare str_nat.simps [simp del]

definition worker_id_of :: "camera_id \<Rightarrow> nat \<Rightarrow> string" where
  "worker_id_of cam i = ''worker_'' @ str_nat cam @ ''_'' @ str_nat i"

definition machine_id_of :: "camera_id \<Rightarrow> nat \<Rightarrow> string" where
  "machine_id_of cam j = ''machine_'' @ str_nat cam @ ''_'' @ str_nat j"

definition proximity_key :: "camera_id \<Rightarrow> nat \<Rightarrow> nat \<Rightarrow> string" where
  "proximity_key cam i j = worker_id_of cam i @ ''_machine_'' @ str_nat j"

section \<open>Time and rounding\<close>

text \<open>
  \<^verbatim>\<open>time.time()\<close> is a clock reading in seconds. The model reads it as a real
  number and computes with exact arithmetic. Python's \<^verbatim>\<open>round(x, n)\<close> rounds to
  \<open>n\<close> decimals, ties to even.
\<close>

definition round_half_even :: "real \<Rightarrow> int" where
  "round_half_even x =
     (let f = \<lfloor>x\<rfloor>; d = x - of_int f
      in if d < 1 / 2 then f else if 1 / 2 < d then f + 1 else if even f then f else f + 1)"

definition py_round :: "nat \<Rightarrow> real \<Rightarrow> real" where
  "py_round nd x = of_int (round_half_even (x * 10 ^ nd)) / 10 ^ nd"

section \<open>The safety-gear detector\<close>

text \<open>
  What the vision primitives and the file system answer is input to the model. One
  \<open>detection\<close> is a row of \<^verbatim>\<open>boxes\<close>/\<^verbatim>\<open>weights\<close> as returned by
  \<^verbatim>\<open>hog.detectMultiScale\<close>, together with what the environment answers while this
  subject is processed: the list returned by \<^verbatim>\<open>_analyze_safety_gear\<close>, the outcome
  of \<^verbatim>\<open>cv2.imwrite\<close> and the two renderings of \<^verbatim>\<open>datetime.now()\<close>.
\<close>

datatype imwrite_outcome = Returns bool | Raises

record detection =
  box :: "int \<times> int \<times> int \<times> int"
  weight :: real
  missing :: "string list"
  shot :: imwrite_outcome
  stamp :: string
  iso :: string

record violation_data =
  worker_id :: string
  missing_gear :: "string list"
  duration :: real
  screenshot :: "string option"
  timestamp :: string
  camera_id :: camera_id

text \<open>
  \<^verbatim>\<open>violation_time\<close> is a \<^verbatim>\<open>defaultdict(dict)\<close>: a camera that was never
  written reads as the empty dictionary, so the outer level is a total function.
  \<^verbatim>\<open>hog_loaded\<close> is false when \<^verbatim>\<open>load_model\<close> caught an exception and set
  \<^verbatim>\<open>self.hog = None\<close>.
\<close>

record safety_state =
  hog_loaded :: bool
  violation_time :: "camera_id \<Rightarrow> string \<rightharpoonup> real"
  alert_threshold :: real
  violation_history :: "violation_data list"

definition init_safety :: "bool \<Rightarrow> safety_state" where
  "init_safety loaded =
     \<lparr>hog_loaded = loaded, violation_time = (\<lambda>_. Map.empty), alert_threshold = 3,
      violation_history = []\<rparr>"

text \<open>
  \<^verbatim>\<open>_capture_violation_screenshot\<close>: the path is returned unless
  \<^verbatim>\<open>cv2.imwrite\<close> raises. \<^verbatim>\<open>imwrite\<close> returns whether the file was written;
  the code does not look at that value.
\<close>

definition capture_violation_screenshot ::
  "imwrite_outcome \<Rightarrow> string \<Rightarrow> camera_id \<Rightarrow> string \<Rightarrow> string \<Rightarrow> string option" where
  "capture_violation_screenshot outcome ts cam wid violation_type =
     (let filename = violation_type @ ''_'' @ str_nat cam @ ''_'' @ wid @ ''_'' @ ts @ ''.jpg''
      in case outcome of
           Returns _ \<Rightarrow> Some (''/static/violations/'' @ violation_type @ ''/'' @ filename)
         | Raises \<Rightarrow> None)"

text \<open>The body of the loop over \<^verbatim>\<open>enumerate(valid_boxes)\<close> (lines 77 to 132).\<close>

definition open_window :: "safety_state \<Rightarrow> camera_id \<Rightarrow> string \<Rightarrow> real \<Rightarrow> safety_state" where
  "open_window s cam wid current_time =
     (if violation_time s cam wid = None
      then s\<lparr>violation_time := (violation_time s)(cam := (violation_time s cam)(wid \<mapsto> current_time))\<rparr>
      else s)"

definition close_window :: "safety_state \<Rightarrow> camera_id \<Rightarrow> string \<Rightarrow> safety_state" where
  "close_window s cam wid =
     (if violation_time s cam wid = None then s
      else s\<lparr>violation_time := (violation_time s)(cam := (violation_time s cam)(wid := None))\<rparr>)"

definition window_start :: "safety_state \<Rightarrow> camera_id \<Rightarrow> string \<Rightarrow> real \<Rightarrow> real" where
  "window_start s cam wid current_time =
     (case violation_time s cam wid of None \<Rightarrow> current_time | Some t0 \<Rightarrow> t0)"

definition process_subject ::
  "real \<Rightarrow> camera_id \<Rightarrow> nat \<Rightarrow> detection \<Rightarrow> safety_state \<times> violation_data list
     \<Rightarrow> safety_state \<times> violation_data list" where
  "process_subject current_time cam i d acc =
     (let s = fst acc; violations = snd acc; wid = worker_id_of cam i
      in if missing d \<noteq> [] then
           let s1 = open_window s cam wid current_time;
               violation_duration = current_time - window_start s1 cam wid current_time
           in if alert_threshold s1 \<le> violation_duration then
                let screenshot_path =
                      capture_violation_screenshot (shot d) (stamp d) cam wid ''safety_gear'';
                    v = \<lparr>worker_id = wid, missing_gear = missing d,
                         duration = py_round 1 violation_duration,
                         screenshot = screenshot_path, timestamp = iso d, camera_id = cam\<rparr>
                in (s1\<lparr>violation_history := violation_history s1 @ [v]\<rparr>, violations @ [v])
              else (s1, violations)
         else (close_window s cam wid, violations))"

fun detect_loop ::
  "real \<Rightarrow> camera_id \<Rightarrow> nat \<Rightarrow> detection list \<Rightarrow> safety_state \<times> violation_data list
     \<Rightarrow> safety_state \<times> violation_data list" where
  "detect_loop current_time cam i [] acc = acc"
| "detect_loop current_time cam i (d # ds) acc =
     detect_loop current_time cam (Suc i) ds (process_subject current_time cam i d acc)"

definition valid_boxes :: "detection list \<Rightarrow> detection list" where
  "valid_boxes dets = filter (\<lambda>d. 0.5 < weight d) dets"

text \<open>
  \<^verbatim>\<open>SafetyGearDetector.detect\<close>. The drawing calls change pixels of the frame
  only and are left out; the result is the new detector state and the list
  \<^verbatim>\<open>violations\<close>.
\<close>

definition detect ::
  "safety_state \<Rightarrow> camera_id \<Rightarrow> real \<Rightarrow> detection list \<Rightarrow> safety_state \<times> violation_data list" where
  "detect s cam current_time dets =
     (if \<not> hog_loaded s then (s, [])
      else detect_loop current_time cam 0 (valid_boxes dets) (s, []))"

text \<open>
  The caller, \<^verbatim>\<open>generate_frames\<close> in routes.py, takes frames of one camera one
  after the other and runs \<^verbatim>\<open>safety_detector.detect\<close> on each. A frame is the
  clock reading at its detection pass and the detections found in it; the run returns the
  final state and the list of violations of each pass.
\<close>

fun run_detect ::
  "safety_state \<Rightarrow> camera_id \<Rightarrow> (real \<times> detection list) list
     \<Rightarrow> safety_state \<times> violation_data list list" where
  "run_detect s cam [] = (s, [])"
| "run_detect s cam (f # fs) =
     (let r = detect s cam (fst f) (snd f); rest = run_detect (fst r) cam fs
      in (fst rest, snd r # snd rest))"

text \<open>
  What a frame shows of the subject with index \<open>i\<close>: the subject is among the valid
  boxes and its missing-gear list is non-empty, or empty.
\<close>

definition shows_noncompliant :: "nat \<Rightarrow> detection list \<Rightarrow> bool" where
  "shows_noncompliant i dets =
     (i < length (valid_boxes dets) \<and> missing (valid_boxes dets ! i) \<noteq> [])"

definition shows_compliant :: "nat \<Rightarrow> detection list \<Rightarrow> bool" where
  "shows_compliant i dets =
     (i < length (valid_boxes dets) \<and> missing (valid_boxes dets ! i) = [])"

section \<open>The proximity detector\<close>

text \<open>
  Boxes are \<^verbatim>\<open>(x, y, w, h)\<close> in pixels. The worker boxes come with their weights
  from \<^verbatim>\<open>hog.detectMultiScale\<close>; the machinery boxes are what
  \<^verbatim>\<open>_detect_machinery\<close> returns for the frame, in the order it returns them.
  \<^verbatim>\<open>//\<close> is floor division, as \<open>div\<close> on \<open>int\<close> is. Coordinates are
  unbounded integers here: pixel coordinates are bounded by the frame size, far below the
  range in which the squares of their differences would leave 32 bits.
\<close>

type_synonym rect = "int \<times> int \<times> int \<times> int"

definition center :: "rect \<Rightarrow> int \<times> int" where
  "center b = (case b of (x, y, w, h) \<Rightarrow> (x + w div 2, y + h div 2))"

definition distance_between :: "int \<times> int \<Rightarrow> int \<times> int \<Rightarrow> real" where
  "distance_between worker_center machine_center =
     sqrt (of_int ((fst worker_center - fst machine_center)\<^sup>2
                 + (snd worker_center - snd machine_center)\<^sup>2))"

record alert_data =
  alert_worker_id :: string
  machine_id :: string
  distance :: real
  alert_screenshot :: "string option"
  alert_timestamp :: string
  alert_camera_id :: camera_id

text \<open>
  \<^verbatim>\<open>alert_history\<close> is a \<^verbatim>\<open>defaultdict(dict)\<close> like
  \<^verbatim>\<open>violation_time\<close>; \<^verbatim>\<open>machinery_positions\<close> is a plain dictionary.
\<close>

record proximity_state =
  proximity_threshold :: real
  machinery_positions :: "camera_id \<rightharpoonup> rect list"
  alert_history :: "camera_id \<Rightarrow> string \<rightharpoonup> real"
  alert_cooldown :: real
  proximity_history :: "alert_data list"

definition init_proximity :: proximity_state where
  "init_proximity =
     \<lparr>proximity_threshold = 80, machinery_positions = Map.empty,
      alert_history = (\<lambda>_. Map.empty), alert_cooldown = 5, proximity_history = []\<rparr>"

text \<open>
  What the environment answers for the pair of worker \<open>i\<close> and machine \<open>j\<close>, should
  the detector ask: the outcome of \<^verbatim>\<open>cv2.imwrite\<close> and the renderings of
  \<^verbatim>\<open>datetime.now()\<close>.
\<close>

record pair_env =
  pair_shot :: "nat \<Rightarrow> nat \<Rightarrow> imwrite_outcome"
  pair_stamp :: "nat \<Rightarrow> nat \<Rightarrow> string"
  pair_iso :: "nat \<Rightarrow> nat \<Rightarrow> string"

text \<open>\<^verbatim>\<open>self.alert_history[camera_id].get(key, 0)\<close>\<close>

definition last_alert :: "proximity_state \<Rightarrow> camera_id \<Rightarrow> string \<Rightarrow> real" where
  "last_alert s cam key = (case alert_history s cam key of None \<Rightarrow> 0 | Some t \<Rightarrow> t)"

text \<open>The body of the inner loop (lines 243 to 285).\<close>

definition check_pair ::
  "pair_env \<Rightarrow> real \<Rightarrow> camera_id \<Rightarrow> nat \<Rightarrow> rect \<Rightarrow> nat \<Rightarrow> rect
     \<Rightarrow> proximity_state \<times> alert_data list \<Rightarrow> proximity_state \<times> alert_data list" where
  "check_pair env current_time cam i wbox j mbox acc =
     (let s = fst acc; alerts = snd acc;
          wid = worker_id_of cam i;
          dist = distance_between (center wbox) (center mbox)
      in if dist < proximity_threshold s then
           let key = proximity_key cam i j
           in if alert_cooldown s \<le> current_time - last_alert s cam key then
                let screenshot_path =
                      capture_violation_screenshot (pair_shot env i j) (pair_stamp env i j)
                        cam wid ''proximity'';
                    a = \<lparr>alert_worker_id = wid, machine_id = machine_id_of cam j,
                         distance = py_round 2 dist, alert_screenshot = screenshot_path,
                         alert_timestamp = pair_iso env i j, alert_camera_id = cam\<rparr>
                in (s\<lparr>proximity_history := proximity_history s @ [a],
                       alert_history := (alert_history s)
                         (cam := (alert_history s cam)(key \<mapsto> current_time))\<rparr>,
                    alerts @ [a])
              else acc
         else acc)"

fun machinery_loop ::
  "pair_env \<Rightarrow> real \<Rightarrow> camera_id \<Rightarrow> nat \<Rightarrow> rect \<Rightarrow> nat \<Rightarrow> rect list
     \<Rightarrow> proximity_state \<times> alert_data list \<Rightarrow> proximity_state \<times> alert_data list" where
  "machinery_loop env current_time cam i wbox j [] acc = acc"
| "machinery_loop env current_time cam i wbox j (m # ms) acc =
     machinery_loop env current_time cam i wbox (Suc j) ms
       (check_pair env current_time cam i wbox j m acc)"

fun worker_loop ::
  "pair_env \<Rightarrow> real \<Rightarrow> camera_id \<Rightarrow> rect list \<Rightarrow> nat \<Rightarrow> rect list
     \<Rightarrow> proximity_state \<times> alert_data list \<Rightarrow> proximity_state \<times> alert_data list" where
  "worker_loop env current_time cam machinery i [] acc = acc"
| "worker_loop env current_time cam machinery i (w # ws) acc =
     worker_loop env current_time cam machinery (Suc i) ws
       (machinery_loop env current_time cam i w 0 machinery acc)"

definition valid_workers :: "(rect \<times> real) list \<Rightarrow> rect list" where
  "valid_workers boxes = map fst (filter (\<lambda>b. 0.5 < snd b) boxes)"

text \<open>
  \<^verbatim>\<open>ProximityDetector.detect\<close>: \<^verbatim>\<open>_detect_machinery\<close> has stored the
  machinery list under the camera before the loops start. Drawing is left out.
\<close>

definition proximity_detect ::
  "proximity_state \<Rightarrow> pair_env \<Rightarrow> camera_id \<Rightarrow> real \<Rightarrow> rect list \<Rightarrow> (rect \<times> real) list
     \<Rightarrow> proximity_state \<times> alert_data list" where
  "proximity_detect s env cam current_time machinery boxes =
     worker_loop env current_time cam machinery 0 (valid_workers boxes)
       (s\<lparr>machinery_positions := (machinery_positions s)(cam \<mapsto> machinery)\<rparr>, [])"

text \<open>
  Whether the pair of worker \<open>i\<close> and machine \<open>j\<close> is within the distance threshold,
  and whether in state \<open>s\<close> its cooldown has elapsed as well.
\<close>

definition pair_near :: "proximity_state \<Rightarrow> rect list \<Rightarrow> rect list \<Rightarrow> nat \<times> nat \<Rightarrow> bool" where
  "pair_near s workers machinery p =
     (fst p < length workers \<and> snd p < length machinery \<and>
      distance_between (center (workers ! fst p)) (center (machinery ! snd p))
        < proximity_threshold s)"

definition pair_alerts ::
  "proximity_state \<Rightarrow> camera_id \<Rightarrow> real \<Rightarrow> rect list \<Rightarrow> rect list \<Rightarrow> nat \<times> nat \<Rightarrow> bool" where
  "pair_alerts s cam current_time workers machinery p =
     (pair_near s workers machinery p \<and>
      alert_cooldown s \<le> current_time - last_alert s cam (proximity_key cam (fst p) (snd p)))"

text \<open>The record built for the pair (lines 270 to 277).\<close>

definition pair_alert ::
  "pair_env \<Rightarrow> camera_id \<Rightarrow> rect list \<Rightarrow> rect list \<Rightarrow> nat \<times> nat \<Rightarrow> alert_data" where
  "pair_alert env cam workers machinery p =
     \<lparr>alert_worker_id = worker_id_of cam (fst p), machine_id = machine_id_of cam (snd p),
      distance = py_round 2
        (distance_between (center (workers ! fst p)) (center (machinery ! snd p))),
      alert_screenshot = capture_violation_screenshot (pair_shot env (fst p) (snd p))
        (pair_stamp env (fst p) (snd p)) cam (worker_id_of cam (fst p)) ''proximity'',
      alert_timestamp = pair_iso env (fst p) (snd p), alert_camera_id = cam\<rparr>"

section \<open>Stream sources and the camera manager\<close>

text \<open>
  Frames are numpy arrays, shared by reference and changed in place, so they live in a
  store: a list of images in which an address is an index and an allocation appends. What
  an image holds is kept symbolic: the arrays the code builds itself are terms of drawing
  calls, and \<open>Decoded n\<close> stands for the \<open>n\<close>-th picture the capture device
  delivered.
\<close>

datatype image =
    Zeros nat nat nat
  | Decoded nat
  | Fill image "nat \<times> nat \<times> nat"
  | PutText image string "int \<times> int"
  | Rectangle image "int \<times> int" "int \<times> int"

record capture =
  is_opened :: bool

text \<open>
  The fields of \<^verbatim>\<open>IPCamera\<close>. \<open>fetch_threads\<close> and \<open>fallback_threads\<close> count the
  daemon threads started on \<^verbatim>\<open>_update_frame\<close> and \<^verbatim>\<open>_update_fallback_frame\<close>; each
  runs its loop as long as its loop condition on \<open>is_running\<close> and \<open>use_fallback\<close> holds.
\<close>

record ip_camera =
  url :: string
  name :: string
  cap :: "capture option"
  last_frame :: "nat option"
  last_accessed :: real
  is_running :: bool
  use_fallback :: bool
  fallback_frames :: "nat list"
  fallback_index :: nat
  fallback_last_time :: real
  fetch_threads :: nat
  fallback_threads :: nat

text \<open>What \<^verbatim>\<open>cv2.VideoCapture(url)\<close> and \<^verbatim>\<open>cap.read()\<close> do is input.\<close>

datatype open_result = Opened | NotOpened | OpenRaised

datatype read_result = ReadOk nat | ReadFailed | ReadRaised

definition offline_image :: "string \<Rightarrow> image" where
  "offline_image nm =
     Rectangle
       (PutText
         (PutText
           (PutText (Fill (Zeros 480 640 3) (64, 64, 64)) (nm @ '' - OFFLINE'') (50, 200))
           ''Camera not connected'' (50, 250))
         ''Please check camera connection'' (50, 300))
       (10, 10) (630, 470)"

definition setup_fallback :: "ip_camera \<Rightarrow> image list \<Rightarrow> ip_camera \<times> image list" where
  "setup_fallback c imgs =
     (c\<lparr>use_fallback := True, is_running := True, fallback_frames := [length imgs],
        fallback_threads := Suc (fallback_threads c)\<rparr>,
      imgs @ [offline_image (name c)])"

definition connect :: "open_result \<Rightarrow> ip_camera \<Rightarrow> image list \<Rightarrow> bool \<times> ip_camera \<times> image list" where
  "connect res c imgs =
     (case res of
        OpenRaised \<Rightarrow> (False, setup_fallback c imgs)
      | NotOpened \<Rightarrow> (False, setup_fallback (c\<lparr>cap := Some \<lparr>is_opened = False\<rparr>\<rparr>) imgs)
      | Opened \<Rightarrow>
          (True, c\<lparr>cap := Some \<lparr>is_opened = True\<rparr>, is_running := True,
                   fetch_threads := Suc (fetch_threads c)\<rparr>, imgs))"

text \<open>
  \<^verbatim>\<open>IPCamera.__init__\<close>: \<open>obj\<close> stands for \<^verbatim>\<open>id(self)\<close>, used for the name when
  none is given.
\<close>

definition new_ip_camera ::
  "string \<Rightarrow> string option \<Rightarrow> nat \<Rightarrow> real \<Rightarrow> open_result \<Rightarrow> image list \<Rightarrow> ip_camera \<times> image list" where
  "new_ip_camera u nm obj now res imgs =
     snd (connect res
       \<lparr>url = u,
        name = (case nm of None \<Rightarrow> ''Camera-'' @ str_nat obj
                | Some n \<Rightarrow> if n = [] then ''Camera-'' @ str_nat obj else n),
        cap = None, last_frame = None, last_accessed = now, is_running = False,
        use_fallback = False, fallback_frames = [], fallback_index = 0,
        fallback_last_time = 0, fetch_threads = 0, fallback_threads = 0\<rparr> imgs)"

text \<open>
  \<^verbatim>\<open>get_frame\<close> returns the address of an array it has just allocated:
  \<^verbatim>\<open>np.zeros\<close> with the text drawn on it, or \<^verbatim>\<open>self.last_frame.copy()\<close>.
\<close>

definition get_frame :: "ip_camera \<Rightarrow> image list \<Rightarrow> nat \<times> image list" where
  "get_frame c imgs =
     (case last_frame c of
        None \<Rightarrow>
          (length imgs,
           imgs @ [PutText (Zeros 480 640 3) (name c @ '' - No Frame Available'') (50, 50)])
      | Some p \<Rightarrow> (length imgs, imgs @ [imgs ! p]))"

definition release :: "ip_camera \<Rightarrow> ip_camera" where
  "release c =
     (let c1 = c\<lparr>is_running := False\<rparr>
      in case cap c1 of None \<Rightarrow> c1 | Some k \<Rightarrow> c1\<lparr>cap := Some (k\<lparr>is_opened := False\<rparr>)\<rparr>)"

subsection \<open>The background loops\<close>

text \<open>
  One iteration of each loop, as the list of what the thread does in order.
  \<^verbatim>\<open>with self.lock:\<close> is \<open>Acquire\<close> at entry and \<open>Release\<close> at every exit of the
  block, also by \<^verbatim>\<open>break\<close> or an exception.
\<close>

datatype event =
    Acquire | Release | CapRead | Publish | Log | CapRelease | Sleep real | Reopen
  | SetupFallback

text \<open>
  The body of \<^verbatim>\<open>while self.is_running and not self.use_fallback\<close> in
  \<^verbatim>\<open>_update_frame\<close> (lines 86 to 104).
\<close>

definition update_frame_iteration ::
  "read_result \<Rightarrow> open_result \<Rightarrow> real \<Rightarrow> ip_camera \<Rightarrow> image list
     \<Rightarrow> event list \<times> ip_camera \<times> image list" where
  "update_frame_iteration rd reopen now c imgs =
     (case rd of
        ReadOk n \<Rightarrow>
          ([Acquire, CapRead, Publish, Release],
           c\<lparr>last_frame := Some (length imgs), last_accessed := now\<rparr>, imgs @ [Decoded n])
      | ReadFailed \<Rightarrow>
          (let c1 = c\<lparr>cap := map_option (\<lambda>k. k\<lparr>is_opened := False\<rparr>) (cap c)\<rparr>
           in case reopen of
                Opened \<Rightarrow>
                  ([Acquire, CapRead, Log, CapRelease, Sleep 1, Reopen, Release],
                   c1\<lparr>cap := Some \<lparr>is_opened = True\<rparr>\<rparr>, imgs)
              | NotOpened \<Rightarrow>
                  ([Acquire, CapRead, Log, CapRelease, Sleep 1, Reopen, Log, SetupFallback, Release],
                   setup_fallback (c1\<lparr>cap := Some \<lparr>is_opened = False\<rparr>\<rparr>) imgs)
              | OpenRaised \<Rightarrow>
                  ([Acquire, CapRead, Log, CapRelease, Sleep 1, Reopen, Release, Log, Sleep (1 / 2)],
                   c1, imgs))
      | ReadRaised \<Rightarrow> ([Acquire, CapRead, Release, Log, Sleep (1 / 2)], c, imgs))"

text \<open>
  The body of \<^verbatim>\<open>while self.use_fallback and self.is_running\<close> in
  \<^verbatim>\<open>_update_fallback_frame\<close> (lines 73 to 81).
\<close>

definition update_fallback_iteration ::
  "real \<Rightarrow> ip_camera \<Rightarrow> image list \<Rightarrow> event list \<times> ip_camera \<times> image list" where
  "update_fallback_iteration now c imgs =
     (if 0.5 < now - fallback_last_time c then
        let idx = (fallback_index c + 1) mod length (fallback_frames c)
        in ([Acquire, Publish, Release, Sleep (1 / 10)],
            c\<lparr>fallback_index := idx, last_frame := Some (length imgs), last_accessed := now,
              fallback_last_time := now\<rparr>,
            imgs @ [imgs ! (fallback_frames c ! idx)])
      else ([Sleep (1 / 10)], c, imgs))"

text \<open>The events of a trace that happen while the lock is held.\<close>

fun while_locked :: "bool \<Rightarrow> event list \<Rightarrow> event list" where
  "while_locked l [] = []"
| "while_locked l (Acquire # es) = while_locked True es"
| "while_locked l (Release # es) = while_locked False es"
| "while_locked l (e # es) = (if l then e # while_locked l es else while_locked l es)"

subsection \<open>The camera manager\<close>

text \<open>
  \<^verbatim>\<open>CameraManager.cameras\<close> maps a camera identifier to an \<^verbatim>\<open>IPCamera\<close> object.
  The objects live in a store of their own, so that an object dropped from the dictionary
  is still there to be looked at.
\<close>

record site =
  cameras :: "camera_id \<rightharpoonup> nat"
  sources :: "ip_camera list"
  images :: "image list"

definition init_site :: site where
  "init_site = \<lparr>cameras = Map.empty, sources = [], images = []\<rparr>"

text \<open>
  \<^verbatim>\<open>add_camera\<close>: the constructor catches what \<^verbatim>\<open>connect\<close> raises, so the
  \<^verbatim>\<open>except\<close> branch that returns \<^verbatim>\<open>False\<close> is not reached from it.
\<close>

definition add_camera ::
  "camera_id \<Rightarrow> string \<Rightarrow> string option \<Rightarrow> real \<Rightarrow> open_result \<Rightarrow> site \<Rightarrow> bool \<times> site" where
  "add_camera cid u nm now res st =
     (let given = (case nm of None \<Rightarrow> ''Camera-'' @ str_nat cid
                   | Some n \<Rightarrow> if n = [] then ''Camera-'' @ str_nat cid else n);
          obj = length (sources st);
          made = new_ip_camera u (Some given) obj now res (images st)
      in (True, st\<lparr>cameras := (cameras st)(cid \<mapsto> obj),
                   sources := sources st @ [fst made], images := snd made\<rparr>))"

definition get_camera :: "camera_id \<Rightarrow> site \<Rightarrow> nat option" where
  "get_camera cid st = cameras st cid"

definition remove_camera :: "camera_id \<Rightarrow> site \<Rightarrow> bool \<times> site" where
  "remove_camera cid st =
     (case cameras st cid of
        Some obj \<Rightarrow>
          (True, st\<lparr>sources := (sources st)[obj := release (sources st ! obj)],
                   cameras := (cameras st)(cid := None)\<rparr>)
      | None \<Rightarrow> (False, st))"

section \<open>Sample inputs\<close>

text \<open>A subject found with the given confidence and missing-gear list.\<close>

definition subject :: "real \<Rightarrow> string list \<Rightarrow> imwrite_outcome \<Rightarrow> detection" where
  "subject w gear outcome =
     \<lparr>box = (10, 20, 64, 128), weight = w, missing = gear, shot = outcome,
      stamp = ''20240101_120000'', iso = ''2024-01-01T12:00:00''\<rparr>"

text \<open>Six frames, one a second from 0 to 5, each showing subject 0 without a helmet.\<close>

definition sustained_frames :: "(real \<times> detection list) list" where
  "sustained_frames =
     map (\<lambda>t. (t, [subject 0.9 [''helmet''] (Returns True)])) [0, 1, 2, 3, 4, 5]"

text \<open>
  Two workers and two machines, every pair closer than 80 pixels; worker 0 and machine 0
  are 50 pixels apart. The environment saves every screenshot.
\<close>

definition sample_workers :: "(rect \<times> real) list" where
  "sample_workers = [((100, 100, 40, 80), 0.9), ((110, 100, 40, 80), 0.8)]"

definition sample_machinery :: "rect list" where
  "sample_machinery = [(140, 120, 60, 40), (90, 100, 60, 40)]"

definition sample_env :: pair_env where
  "sample_env = \<lparr>pair_shot = (\<lambda>i j. Returns True), pair_stamp = (\<lambda>i j. ''20240101_120000''),
     pair_iso = (\<lambda>i j. ''2024-01-01T12:00:00'')\<rparr>"

section \<open>The formatted identifiers are injective\<close>

lemma digit_cases: "d < 10 \<Longrightarrow> d \<in> {0, 1, 2, 3, 4, 5, 6, 7, 8, 9 :: nat}"
  by auto

lemma digit_char_inj: "a < 10 \<Longrightarrow> b < 10 \<Longrightarrow> digit_char a = digit_char b \<Longrightarrow> a = b"
  using digit_cases [of a] digit_cases [of b]
  by (auto simp: digit_char_def)

lemma str_nat_nonempty: "str_nat n \<noteq> []"
  by (subst str_nat.simps) simp

lemma length_str_nat_small: "n < 10 \<Longrightarrow> length (str_nat n) = 1"
  by (subst str_nat.simps) simp

lemma length_str_nat_big: "\<not> n < 10 \<Longrightarrow> 2 \<le> length (str_nat n)"
  using str_nat_nonempty [of "n div 10"]
  by (subst str_nat.simps) (cases "str_nat (n div 10)"; simp)

lemma str_nat_inj: "str_nat n = str_nat m \<Longrightarrow> n = m"
proof (induction n arbitrary: m rule: str_nat.induct)
  case (1 n)
  show ?case
  proof (cases "n < 10")
    case True
    then have "length (str_nat m) = 1"
      using "1.prems" length_str_nat_small [of n] by simp
    then have m: "m < 10"
      using length_str_nat_big [of m] by fastforce
    from True m "1.prems" have "digit_char n = digit_char m"
      by (simp add: str_nat.simps [of n] str_nat.simps [of m])
    with True m show ?thesis by (rule digit_char_inj)
  next
    case False
    then have "2 \<le> length (str_nat m)"
      using "1.prems" length_str_nat_big [of n] by simp
    then have m: "\<not> m < 10"
      using length_str_nat_small [of m] by fastforce
    from False m "1.prems"
    have eq: "str_nat (n div 10) @ [digit_char (n mod 10)] = str_nat (m div 10) @ [digit_char (m mod 10)]"
      by (simp add: str_nat.simps [of n] str_nat.simps [of m])
    then have "str_nat (n div 10) = str_nat (m div 10)" and d: "digit_char (n mod 10) = digit_char (m mod 10)"
      by simp_all
    then have q: "n div 10 = m div 10"
      using "1.IH" False by blast
    have "n mod 10 = m mod 10"
      using d by (intro digit_char_inj) simp_all
    with q show ?thesis
      by (metis div_mult_mod_eq)
  qed
qed

lemma digit_char_not_underscore: "d < 10 \<Longrightarrow> digit_char d \<noteq> CHR ''_''"
  using digit_cases [of d] by (auto simp: digit_char_def)

lemma str_nat_no_underscore: "CHR ''_'' \<notin> set (str_nat n)"
proof (induction n rule: str_nat.induct)
  case (1 n)
  show ?case
  proof (cases "n < 10")
    case True
    then show ?thesis
      using digit_char_not_underscore [of n] by (subst str_nat.simps) auto
  next
    case False
    then show ?thesis
      using "1.IH" digit_char_not_underscore [of "n mod 10"]
      by (subst str_nat.simps) auto
  qed
qed

lemma worker_id_of_inj: "worker_id_of cam i = worker_id_of cam j \<longleftrightarrow> i = j"
  by (auto simp: worker_id_of_def dest: str_nat_inj)

lemma machine_id_of_inj: "machine_id_of cam i = machine_id_of cam j \<longleftrightarrow> i = j"
  by (auto simp: machine_id_of_def dest: str_nat_inj)

lemma split_at_first:
  "x \<notin> set xs \<Longrightarrow> x \<notin> set xs' \<Longrightarrow> xs @ x # ys = xs' @ x # ys'
     \<Longrightarrow> xs = xs' \<and> ys = ys'"
proof (induction xs arbitrary: xs')
  case Nil
  then show ?case by (cases xs') auto
next
  case (Cons a xs)
  then show ?case by (cases xs') auto
qed

lemma proximity_key_inj:
  "proximity_key cam i j = proximity_key cam i' j' \<longleftrightarrow> i = i' \<and> j = j'"
proof
  assume "proximity_key cam i j = proximity_key cam i' j'"
  then have "str_nat i @ CHR ''_'' # (''machine_'' @ str_nat j)
           = str_nat i' @ CHR ''_'' # (''machine_'' @ str_nat j')"
    by (simp add: proximity_key_def worker_id_of_def)
  then have "str_nat i = str_nat i' \<and> ''machine_'' @ str_nat j = ''machine_'' @ str_nat j'"
    by (rule split_at_first [OF str_nat_no_underscore str_nat_no_underscore])
  then show "i = i' \<and> j = j'"
    by (auto dest: str_nat_inj)
qed simp

section \<open>A pass of the safety-gear detector, subject by subject\<close>

lemma process_subject_snd:
  "snd (process_subject now cam i d acc) = snd acc @ snd (process_subject now cam i d (fst acc, []))"
  by (simp add: process_subject_def Let_def)

lemma process_subject_hist:
  "violation_history (fst (process_subject now cam i d acc))
     = violation_history (fst acc) @ snd (process_subject now cam i d (fst acc, []))"
  by (simp add: process_subject_def Let_def open_window_def close_window_def)

lemma process_subject_threshold:
  "alert_threshold (fst (process_subject now cam i d acc)) = alert_threshold (fst acc)"
  by (simp add: process_subject_def Let_def open_window_def close_window_def)

lemma process_subject_hog:
  "hog_loaded (fst (process_subject now cam i d acc)) = hog_loaded (fst acc)"
  by (simp add: process_subject_def Let_def open_window_def close_window_def)

lemma process_subject_vt_other:
  "cam' \<noteq> cam \<or> w \<noteq> worker_id_of cam i \<Longrightarrow>
   violation_time (fst (process_subject now cam i d acc)) cam' w = violation_time (fst acc) cam' w"
  by (auto simp: process_subject_def Let_def open_window_def close_window_def)

lemma process_subject_vt_same:
  "violation_time (fst (process_subject now cam i d acc)) cam (worker_id_of cam i)
     = (if missing d \<noteq> [] then Some (window_start (fst acc) cam (worker_id_of cam i) now) else None)"
  by (auto simp: process_subject_def Let_def open_window_def close_window_def window_start_def)

lemma process_subject_emit_cong:
  "alert_threshold s = alert_threshold s' \<Longrightarrow>
   violation_time s cam (worker_id_of cam i) = violation_time s' cam (worker_id_of cam i) \<Longrightarrow>
   snd (process_subject now cam i d (s, [])) = snd (process_subject now cam i d (s', []))"
  by (auto simp: process_subject_def Let_def open_window_def window_start_def)

lemma detect_loop_threshold:
  "alert_threshold (fst (detect_loop now cam i ds acc)) = alert_threshold (fst acc)"
  by (induction ds arbitrary: i acc) (simp_all add: process_subject_threshold)

lemma detect_loop_hog:
  "hog_loaded (fst (detect_loop now cam i ds acc)) = hog_loaded (fst acc)"
  by (induction ds arbitrary: i acc) (simp_all add: process_subject_hog)

lemma detect_loop_vt_other_cam:
  "cam' \<noteq> cam \<Longrightarrow>
   violation_time (fst (detect_loop now cam i ds acc)) cam' w = violation_time (fst acc) cam' w"
  by (induction ds arbitrary: i acc) (simp_all add: process_subject_vt_other)

lemma detect_loop_vt_outside:
  "k < i \<or> i + length ds \<le> k \<Longrightarrow>
   violation_time (fst (detect_loop now cam i ds acc)) cam (worker_id_of cam k)
     = violation_time (fst acc) cam (worker_id_of cam k)"
proof (induction ds arbitrary: i acc)
  case Nil
  then show ?case by simp
next
  case (Cons d ds)
  from Cons.prems have "k \<noteq> i" and "k < Suc i \<or> Suc i + length ds \<le> k" by auto
  then show ?case
    by (simp add: Cons.IH process_subject_vt_other worker_id_of_inj)
qed

lemma detect_loop_vt_inside:
  "i \<le> k \<Longrightarrow> k < i + length ds \<Longrightarrow>
   violation_time (fst (detect_loop now cam i ds acc)) cam (worker_id_of cam k)
     = (if missing (ds ! (k - i)) \<noteq> []
        then Some (window_start (fst acc) cam (worker_id_of cam k) now) else None)"
proof (induction ds arbitrary: i acc)
  case Nil
  then show ?case by simp
next
  case (Cons d ds)
  show ?case
  proof (cases "k = i")
    case True
    then show ?thesis
      by (simp add: detect_loop_vt_outside process_subject_vt_same)
  next
    case False
    with Cons.prems have "Suc i \<le> k" and "k < Suc i + length ds" by auto
    moreover have "(d # ds) ! (k - i) = ds ! (k - Suc i)"
      using False Cons.prems by (simp add: nth_Cons')
    ultimately show ?thesis
      using False
      by (simp add: Cons.IH process_subject_vt_other worker_id_of_inj window_start_def)
  qed
qed

lemma emit_after_other:
  "p \<in> set (enumerate (Suc i) ds) \<Longrightarrow>
   (case p of (k, d') \<Rightarrow>
      snd (process_subject now cam k d' (fst (process_subject now cam i d acc), [])))
   = (case p of (k, d') \<Rightarrow> snd (process_subject now cam k d' (fst acc, [])))"
proof -
  assume "p \<in> set (enumerate (Suc i) ds)"
  then have "fst p \<noteq> i" by (auto simp: in_set_enumerate_eq)
  then show ?thesis
    by (cases p)
       (simp add: process_subject_emit_cong [of "fst (process_subject now cam i d acc)" "fst acc"]
          process_subject_threshold process_subject_vt_other worker_id_of_inj)
qed

lemma emits_after_other:
  "map (\<lambda>(k, d'). snd (process_subject now cam k d' (fst (process_subject now cam i d acc), [])))
     (enumerate (Suc i) ds)
   = map (\<lambda>(k, d'). snd (process_subject now cam k d' (fst acc, []))) (enumerate (Suc i) ds)"
  by (rule map_cong [OF refl]) (rule emit_after_other)

lemma detect_loop_snd:
  "snd (detect_loop now cam i ds acc)
     = snd acc @ concat (map (\<lambda>(k, d). snd (process_subject now cam k d (fst acc, []))) (enumerate i ds))"
proof (induction ds arbitrary: i acc)
  case Nil
  then show ?case by simp
next
  case (Cons d ds)
  have "snd (detect_loop now cam i (d # ds) acc)
          = snd (process_subject now cam i d acc)
            @ concat (map (\<lambda>(k, d'). snd (process_subject now cam k d'
                 (fst (process_subject now cam i d acc), []))) (enumerate (Suc i) ds))"
    by (simp add: Cons.IH)
  also have "\<dots> = (snd acc @ snd (process_subject now cam i d (fst acc, [])))
            @ concat (map (\<lambda>(k, d'). snd (process_subject now cam k d' (fst acc, [])))
                 (enumerate (Suc i) ds))"
    by (simp only: emits_after_other process_subject_snd [of now cam i d acc])
  finally show ?case by simp
qed

lemma detect_loop_hist:
  "violation_history (fst (detect_loop now cam i ds acc))
     = violation_history (fst acc)
       @ concat (map (\<lambda>(k, d). snd (process_subject now cam k d (fst acc, []))) (enumerate i ds))"
proof (induction ds arbitrary: i acc)
  case Nil
  then show ?case by simp
next
  case (Cons d ds)
  have "violation_history (fst (detect_loop now cam i (d # ds) acc))
          = violation_history (fst (process_subject now cam i d acc))
            @ concat (map (\<lambda>(k, d'). snd (process_subject now cam k d'
                 (fst (process_subject now cam i d acc), []))) (enumerate (Suc i) ds))"
    by (simp add: Cons.IH)
  also have "\<dots> = (violation_history (fst acc) @ snd (process_subject now cam i d (fst acc, [])))
            @ concat (map (\<lambda>(k, d'). snd (process_subject now cam k d' (fst acc, [])))
                 (enumerate (Suc i) ds))"
    by (simp only: emits_after_other process_subject_hist)
  finally show ?case by simp
qed

lemma floor_le_round_half_even: "\<lfloor>x\<rfloor> \<le> round_half_even x"
  by (simp add: round_half_even_def Let_def)

lemma round_half_even_ge: "of_int k \<le> x \<Longrightarrow> k \<le> round_half_even x"
proof -
  assume "of_int k \<le> x"
  then have "k \<le> \<lfloor>x\<rfloor>" by (simp add: le_floor_iff)
  also have "\<dots> \<le> round_half_even x" by (rule floor_le_round_half_even)
  finally show ?thesis .
qed

lemma py_round_1_ge:
  assumes "thr * 10 = of_int k" and "thr \<le> x"
  shows "thr \<le> py_round 1 x"
proof -
  from assms have "of_int k \<le> x * 10" by simp
  then have "k \<le> round_half_even (x * 10)" by (rule round_half_even_ge)
  then have "(of_int k :: real) \<le> of_int (round_half_even (x * 10))" by simp
  then have "thr * 10 \<le> of_int (round_half_even (x * 10))" using assms(1) by simp
  then show ?thesis by (simp add: py_round_def field_simps)
qed

lemma process_subject_emits:
  "r \<in> set (snd (process_subject now cam k d (s, []))) \<Longrightarrow>
   missing d \<noteq> [] \<and> worker_id r = worker_id_of cam k \<and> camera_id r = cam \<and>
   missing_gear r = missing d \<and>
   alert_threshold s \<le> now - window_start s cam (worker_id_of cam k) now \<and>
   duration r = py_round 1 (now - window_start s cam (worker_id_of cam k) now)"
  by (auto simp: process_subject_def Let_def open_window_def window_start_def
      split: if_splits option.splits)

lemma detect_emits:
  assumes "r \<in> set (snd (detect s cam now dets))"
  shows "\<exists>k < length (valid_boxes dets). hog_loaded s \<and>
           r \<in> set (snd (process_subject now cam k (valid_boxes dets ! k) (s, [])))"
proof -
  from assms have hog: "hog_loaded s"
    by (auto simp: detect_def split: if_splits)
  with assms obtain p where p: "p \<in> set (enumerate 0 (valid_boxes dets))"
    and r: "r \<in> set (case p of (k, d) \<Rightarrow> snd (process_subject now cam k d (s, [])))"
    by (auto simp: detect_def detect_loop_snd)
  from p have "fst p < length (valid_boxes dets)" and "snd p = valid_boxes dets ! fst p"
    by (auto simp: in_set_enumerate_eq)
  with r hog show ?thesis by (cases p) auto
qed

lemma detect_window_of_subject:
  assumes "hog_loaded s" and "k < length (valid_boxes dets)"
  shows "violation_time (fst (detect s cam now dets)) cam (worker_id_of cam k)
     = (if missing (valid_boxes dets ! k) \<noteq> []
        then Some (window_start s cam (worker_id_of cam k) now) else None)"
  using assms detect_loop_vt_inside [of 0 k "valid_boxes dets" now cam "(s, [])"]
  by (simp add: detect_def)

lemma detect_window_of_others:
  assumes "length (valid_boxes dets) \<le> k"
  shows "violation_time (fst (detect s cam now dets)) cam (worker_id_of cam k)
     = violation_time s cam (worker_id_of cam k)"
  using assms detect_loop_vt_outside [of k 0 "valid_boxes dets" now cam "(s, [])"]
  by (simp add: detect_def)

lemma detect_history:
  "violation_history (fst (detect s cam now dets))
     = violation_history s @ snd (detect s cam now dets)"
  by (simp add: detect_def detect_loop_hist detect_loop_snd)

text \<open>
  Claim C1. Every record that a detection pass returns (and appends to the history) belongs
  to a worker whose violation window is open, the time elapsed since the start of that
  window is at least the alert threshold, and the record's duration is that elapsed time
  rounded to one decimal. Where the threshold is a whole number of tenths of a second, as
  the default of 3 seconds is, the rounded duration is at least the threshold too.
\<close>

theorem safety_gear_no_early_emission:
  "violation_history (fst (detect s cam now dets))
     = violation_history s @ snd (detect s cam now dets) \<and>
   (\<forall>r \<in> set (snd (detect s cam now dets)).
      \<exists>start. violation_time (fst (detect s cam now dets)) cam (worker_id r) = Some start
        \<and> alert_threshold s \<le> now - start
        \<and> duration r = py_round 1 (now - start)
        \<and> ((\<exists>k::int. alert_threshold s * 10 = of_int k) \<longrightarrow> alert_threshold s \<le> duration r))"
proof (intro conjI ballI)
  show "violation_history (fst (detect s cam now dets))
     = violation_history s @ snd (detect s cam now dets)"
    by (rule detect_history)
next
  fix r assume "r \<in> set (snd (detect s cam now dets))"
  then obtain k where k: "k < length (valid_boxes dets)" and hog: "hog_loaded s"
    and r: "r \<in> set (snd (process_subject now cam k (valid_boxes dets ! k) (s, [])))"
    using detect_emits by blast
  let ?start = "window_start s cam (worker_id_of cam k) now"
  from process_subject_emits [OF r]
  have m: "missing (valid_boxes dets ! k) \<noteq> []" and w: "worker_id r = worker_id_of cam k"
    and thr: "alert_threshold s \<le> now - ?start" and dur: "duration r = py_round 1 (now - ?start)"
    by simp_all
  have "violation_time (fst (detect s cam now dets)) cam (worker_id r) = Some ?start"
    using detect_window_of_subject [OF hog k] m w by simp
  moreover have "(\<exists>k::int. alert_threshold s * 10 = of_int k) \<longrightarrow> alert_threshold s \<le> duration r"
    using thr dur py_round_1_ge by auto
  ultimately show "\<exists>start. violation_time (fst (detect s cam now dets)) cam (worker_id r) = Some start
        \<and> alert_threshold s \<le> now - start
        \<and> duration r = py_round 1 (now - start)
        \<and> ((\<exists>k::int. alert_threshold s * 10 = of_int k) \<longrightarrow> alert_threshold s \<le> duration r)"
    using thr dur by blast
qed

lemma process_subject_alone:
  "snd (process_subject now cam k d (s, []))
     = (if missing d \<noteq> [] \<and> alert_threshold s \<le> now - window_start s cam (worker_id_of cam k) now
        then [\<lparr>worker_id = worker_id_of cam k, missing_gear = missing d,
               duration = py_round 1 (now - window_start s cam (worker_id_of cam k) now),
               screenshot = capture_violation_screenshot (shot d) (stamp d) cam
                              (worker_id_of cam k) ''safety_gear'',
               timestamp = iso d, camera_id = cam\<rparr>]
        else [])"
  by (auto simp: process_subject_def Let_def open_window_def window_start_def)

lemma concat_pick:
  "concat (map (\<lambda>(j, d). if j = k then g j d else []) (enumerate n xs))
     = (if n \<le> k \<and> k < n + length xs then g k (xs ! (k - n)) else [])"
proof (induction xs arbitrary: n)
  case Nil
  then show ?case by auto
next
  case (Cons x xs)
  then show ?case by (auto simp: nth_Cons' Suc_diff_le)
qed

lemma filter_subject_emits:
  "filter (\<lambda>r. worker_id r = worker_id_of cam k) (snd (process_subject now cam j d (s, [])))
     = (if j = k then snd (process_subject now cam j d (s, [])) else [])"
  by (simp add: process_subject_alone worker_id_of_inj)

lemma detect_loop_records_of_subject:
  "filter (\<lambda>r. worker_id r = worker_id_of cam k) (snd (detect_loop now cam 0 ds (s, [])))
     = (if k < length ds then snd (process_subject now cam k (ds ! k) (s, [])) else [])"
proof -
  have "filter (\<lambda>r. worker_id r = worker_id_of cam k) (snd (detect_loop now cam 0 ds (s, [])))
      = concat (map (\<lambda>(j, d). if j = k then snd (process_subject now cam j d (s, [])) else [])
          (enumerate 0 ds))"
    by (simp add: detect_loop_snd filter_concat comp_def case_prod_unfold filter_subject_emits)
  then show ?thesis
    using concat_pick [of k "\<lambda>j d. snd (process_subject now cam j d (s, []))" 0 ds] by simp
qed

lemma detect_records_of_subject:
  "hog_loaded s \<Longrightarrow>
   filter (\<lambda>r. worker_id r = worker_id_of cam k) (snd (detect s cam now dets))
     = (if k < length (valid_boxes dets)
        then snd (process_subject now cam k (valid_boxes dets ! k) (s, [])) else [])"
  by (simp add: detect_def detect_loop_records_of_subject)

lemma detect_threshold: "alert_threshold (fst (detect s cam now dets)) = alert_threshold s"
  by (simp add: detect_def detect_loop_threshold)

lemma detect_hog: "hog_loaded (fst (detect s cam now dets)) = hog_loaded s"
  by (simp add: detect_def detect_loop_hog)

lemma detect_window:
  "hog_loaded s \<Longrightarrow>
   violation_time (fst (detect s cam now dets)) cam (worker_id_of cam i)
     = (if i < length (valid_boxes dets)
        then (if missing (valid_boxes dets ! i) \<noteq> []
              then Some (window_start s cam (worker_id_of cam i) now) else None)
        else violation_time s cam (worker_id_of cam i))"
  by (simp add: detect_window_of_subject detect_window_of_others)

section \<open>Runs of the safety-gear detector\<close>

lemma length_run_detect: "length (snd (run_detect s cam frames)) = length frames"
  by (induction frames arbitrary: s) (simp_all add: Let_def)

lemma run_detect_hog: "hog_loaded (fst (run_detect s cam frames)) = hog_loaded s"
  by (induction frames arbitrary: s) (simp_all add: Let_def detect_hog)

lemma run_detect_threshold: "alert_threshold (fst (run_detect s cam frames)) = alert_threshold s"
  by (induction frames arbitrary: s) (simp_all add: Let_def detect_threshold)

lemma detect_window_kept:
  assumes "hog_loaded s" and "violation_time s cam (worker_id_of cam i) = Some t0"
    and "\<not> shows_compliant i dets"
  shows "violation_time (fst (detect s cam now dets)) cam (worker_id_of cam i) = Some t0"
  using assms by (simp add: detect_window shows_compliant_def window_start_def)

lemma detect_records_measured:
  assumes "hog_loaded s" and "r \<in> set (snd (detect s cam now dets))"
    and "worker_id r = worker_id_of cam i"
  shows "shows_noncompliant i dets \<and>
         duration r = py_round 1 (now - window_start s cam (worker_id_of cam i) now) \<and>
         alert_threshold s \<le> now - window_start s cam (worker_id_of cam i) now"
proof -
  from assms(2,3)
  have "r \<in> set (filter (\<lambda>r. worker_id r = worker_id_of cam i) (snd (detect s cam now dets)))"
    by simp
  then have "i < length (valid_boxes dets)"
    and "r \<in> set (snd (process_subject now cam i (valid_boxes dets ! i) (s, [])))"
    by (simp_all add: detect_records_of_subject [OF assms(1)] split: if_splits)
  then show ?thesis
    using process_subject_emits [of r now cam i "valid_boxes dets ! i" s]
    by (simp add: shows_noncompliant_def)
qed

lemma run_window_kept:
  assumes "hog_loaded s" and "violation_time s cam (worker_id_of cam i) = Some t0"
    and "\<forall>f \<in> set frames. \<not> shows_compliant i (snd f)"
  shows "violation_time (fst (run_detect s cam frames)) cam (worker_id_of cam i) = Some t0"
  using assms
proof (induction frames arbitrary: s)
  case Nil
  then show ?case by simp
next
  case (Cons f fs)
  then show ?case
    by (simp add: Let_def detect_hog detect_window_kept)
qed

lemma run_records_measured:
  assumes "hog_loaded s" and "violation_time s cam (worker_id_of cam i) = Some t0"
    and "\<forall>f \<in> set frames. \<not> shows_compliant i (snd f)"
    and "k < length frames" and "r \<in> set (snd (run_detect s cam frames) ! k)"
    and "worker_id r = worker_id_of cam i"
  shows "duration r = py_round 1 (fst (frames ! k) - t0) \<and> alert_threshold s \<le> fst (frames ! k) - t0"
  using assms
proof (induction frames arbitrary: s k)
  case Nil
  then show ?case by simp
next
  case (Cons f fs)
  show ?case
  proof (cases k)
    case 0
    with Cons.prems have "r \<in> set (snd (detect s cam (fst f) (snd f)))"
      by (simp add: Let_def)
    from detect_records_measured [OF Cons.prems(1) this Cons.prems(6)] Cons.prems(2) 0
    show ?thesis by (simp add: window_start_def)
  next
    case (Suc k')
    let ?s1 = "fst (detect s cam (fst f) (snd f))"
    have "hog_loaded ?s1" using Cons.prems(1) by (simp add: detect_hog)
    moreover have "violation_time ?s1 cam (worker_id_of cam i) = Some t0"
      using Cons.prems(1,2,3) by (simp add: detect_window_kept)
    moreover have "\<forall>f \<in> set fs. \<not> shows_compliant i (snd f)" using Cons.prems(3) by simp
    moreover have "k' < length fs" using Cons.prems(4) Suc by simp
    moreover have "r \<in> set (snd (run_detect ?s1 cam fs) ! k')"
      using Cons.prems(5) Suc by (simp add: Let_def)
    ultimately show ?thesis
      using Cons.IH [of ?s1 k'] Cons.prems(6) Suc by (simp add: detect_threshold)
  qed
qed

lemma detect_count_noncompliant:
  assumes "hog_loaded s" and "shows_noncompliant i dets"
  shows "length (filter (\<lambda>r. worker_id r = worker_id_of cam i) (snd (detect s cam now dets)))
     = (if alert_threshold s \<le> now - window_start s cam (worker_id_of cam i) now then 1 else 0)"
  using assms
  by (simp add: detect_records_of_subject process_subject_alone shows_noncompliant_def)

lemma run_count_open:
  assumes "hog_loaded s" and "violation_time s cam (worker_id_of cam i) = Some t0"
    and "\<forall>f \<in> set frames. shows_noncompliant i (snd f)" and "k < length frames"
  shows "length (filter (\<lambda>r. worker_id r = worker_id_of cam i) (snd (run_detect s cam frames) ! k))
     = (if alert_threshold s \<le> fst (frames ! k) - t0 then 1 else 0)"
  using assms
proof (induction frames arbitrary: s k)
  case Nil
  then show ?case by simp
next
  case (Cons f fs)
  show ?case
  proof (cases k)
    case 0
    then show ?thesis
      using Cons.prems detect_count_noncompliant [of s i "snd f" cam "fst f"]
      by (simp add: Let_def window_start_def)
  next
    case (Suc k')
    let ?s1 = "fst (detect s cam (fst f) (snd f))"
    have "hog_loaded ?s1" using Cons.prems(1) by (simp add: detect_hog)
    moreover have "violation_time ?s1 cam (worker_id_of cam i) = Some t0"
      using Cons.prems(1,2,3)
      by (simp add: detect_window_kept shows_compliant_def shows_noncompliant_def)
    moreover have "\<forall>f \<in> set fs. shows_noncompliant i (snd f)" using Cons.prems(3) by simp
    moreover have "k' < length fs" using Cons.prems(4) Suc by simp
    ultimately show ?thesis
      using Cons.IH [of ?s1 k'] Suc by (simp add: Let_def detect_threshold)
  qed
qed

text \<open>
  Claim C4. While a subject stays non-compliant the detector emits one record for it on
  every frame whose clock reading is at least the threshold past the first frame, and none
  on the frames before: emission is per frame, not once per episode.
\<close>

theorem reemits_on_every_qualifying_frame:
  assumes "hog_loaded s" and "violation_time s cam (worker_id_of cam i) = None"
    and "\<forall>f \<in> set frames. shows_noncompliant i (snd f)"
  shows "\<forall>k < length frames.
           length (filter (\<lambda>r. worker_id r = worker_id_of cam i) (snd (run_detect s cam frames) ! k))
             = (if alert_threshold s \<le> fst (frames ! k) - fst (frames ! 0) then 1 else 0)"
proof (cases frames)
  case Nil
  then show ?thesis by simp
next
  case (Cons f fs)
  let ?s1 = "fst (detect s cam (fst f) (snd f))"
  have nc: "shows_noncompliant i (snd f)" using assms(3) Cons by simp
  have hog1: "hog_loaded ?s1" using assms(1) by (simp add: detect_hog)
  have win1: "violation_time ?s1 cam (worker_id_of cam i) = Some (fst f)"
    using assms(1,2) nc by (simp add: detect_window shows_noncompliant_def window_start_def)
  have rest: "\<forall>f \<in> set fs. shows_noncompliant i (snd f)" using assms(3) Cons by simp
  show ?thesis
  proof (intro allI impI)
    fix k assume k: "k < length frames"
    show "length (filter (\<lambda>r. worker_id r = worker_id_of cam i) (snd (run_detect s cam frames) ! k))
             = (if alert_threshold s \<le> fst (frames ! k) - fst (frames ! 0) then 1 else 0)"
    proof (cases k)
      case 0
      then show ?thesis
        using Cons assms(1,2) nc detect_count_noncompliant [of s i "snd f" cam "fst f"]
        by (simp add: Let_def window_start_def)
    next
      case (Suc k')
      then have "k' < length fs" using k Cons by simp
      from run_count_open [OF hog1 win1 rest this] Suc Cons
      show ?thesis by (simp add: Let_def detect_threshold)
    qed
  qed
qed

lemmas safety_eval =
  detect_def valid_boxes_def subject_def init_safety_def process_subject_def open_window_def
  close_window_def window_start_def worker_id_of_def str_nat.simps
  capture_violation_screenshot_def digit_char_def py_round_def round_half_even_def Let_def
  shows_noncompliant_def shows_compliant_def sustained_frames_def

text \<open>
  Witness for C1: a worker first seen without a helmet at time 0 and again at time 3.
\<close>

theorem safety_gear_no_early_emission_witness:
  "map duration (snd (detect (fst (detect (init_safety True) 1 0 [subject 0.9 [''helmet''] (Returns True)]))
       1 3 [subject 0.9 [''helmet''] (Returns True)])) = [3] \<and>
   (\<exists>start. violation_time (fst (detect (fst (detect (init_safety True) 1 0 [subject 0.9 [''helmet''] (Returns True)]))
       1 3 [subject 0.9 [''helmet''] (Returns True)])) 1 ''worker_1_0'' = Some start \<and>
      alert_threshold (init_safety True) \<le> 3 - start)"
proof -
  let ?d = "subject 0.9 [''helmet''] (Returns True)"
  let ?s = "fst (detect (init_safety True) 1 0 [?d])"
  have out: "map worker_id (snd (detect ?s 1 3 [?d])) = [''worker_1_0'']"
    and dur: "map duration (snd (detect ?s 1 3 [?d])) = [3]"
    by (simp_all add: safety_eval)
  then obtain r where r: "snd (detect ?s 1 3 [?d]) = [r]" and w: "worker_id r = ''worker_1_0''"
    by auto
  have thr: "alert_threshold ?s = alert_threshold (init_safety True)"
    by (rule detect_threshold)
  from safety_gear_no_early_emission [of ?s 1 3 "[?d]"] r w thr
  have "\<exists>start. violation_time (fst (detect ?s 1 3 [?d])) 1 ''worker_1_0'' = Some start \<and>
      alert_threshold (init_safety True) \<le> 3 - start"
    by auto
  with dur show ?thesis by simp
qed

text \<open>
  Witness for C4, the scenario of the specification: threshold 3, frames at 1 Hz from 0 to
  5; records are emitted at 3, 4 and 5 with durations 3, 4 and 5.
\<close>

theorem reemits_on_every_qualifying_frame_witness:
  "map (map duration) (snd (run_detect (init_safety True) 1 sustained_frames))
     = [[], [], [], [3], [4], [5]] \<and>
   length (filter (\<lambda>r. worker_id r = worker_id_of 1 0)
     (snd (run_detect (init_safety True) 1 sustained_frames) ! 3)) = 1 \<and>
   length (filter (\<lambda>r. worker_id r = worker_id_of 1 0)
     (snd (run_detect (init_safety True) 1 sustained_frames) ! 2)) = 0"
proof -
  have h1: "hog_loaded (init_safety True)"
    and h2: "violation_time (init_safety True) 1 (worker_id_of 1 0) = None"
    and h3: "\<forall>f \<in> set sustained_frames. shows_noncompliant 0 (snd f)"
    by (simp_all add: safety_eval)
  have ev: "map (map duration) (snd (run_detect (init_safety True) 1 sustained_frames))
     = [[], [], [], [3], [4], [5]]"
    by (simp add: safety_eval)
  have thr: "alert_threshold (init_safety True) = 3" by (simp add: init_safety_def)
  have t: "fst (sustained_frames ! 3) = 3" "fst (sustained_frames ! 2) = 2"
    "fst (sustained_frames ! 0) = 0" "length sustained_frames = 6"
    by (simp_all add: sustained_frames_def)
  from reemits_on_every_qualifying_frame [OF h1 h2 h3, rule_format, of 3]
       reemits_on_every_qualifying_frame [OF h1 h2 h3, rule_format, of 2] ev thr t
  show ?thesis by simp
qed

lemma detect_window_cases:
  assumes "hog_loaded s"
  shows "violation_time (fst (detect s cam now dets)) cam (worker_id_of cam i)
     = (if shows_noncompliant i dets then Some (window_start s cam (worker_id_of cam i) now)
        else if shows_compliant i dets then None
        else violation_time s cam (worker_id_of cam i))"
  using assms by (auto simp: detect_window shows_noncompliant_def shows_compliant_def)

text \<open>
  Claim C2. A frame that shows the worker compliant deletes the worker's window, whatever
  its start was. Non-compliance in the next frame, at \<open>t2\<close>, opens a window starting at
  \<open>t2\<close>, and as long as no later frame shows the worker compliant every record emitted
  for the worker carries the time elapsed since \<open>t2\<close>, rounded to one decimal.
\<close>

theorem compliance_resets_hysteresis:
  assumes "hog_loaded s" and "shows_compliant i ds1" and "shows_noncompliant i ds2"
    and "\<forall>f \<in> set later. \<not> shows_compliant i (snd f)"
  shows "violation_time (fst (detect s cam t1 ds1)) cam (worker_id_of cam i) = None \<and>
         violation_time (fst (detect (fst (detect s cam t1 ds1)) cam t2 ds2)) cam (worker_id_of cam i)
           = Some t2 \<and>
         (\<forall>k < length later.
            \<forall>r \<in> set (snd (run_detect (fst (detect (fst (detect s cam t1 ds1)) cam t2 ds2)) cam later) ! k).
              worker_id r = worker_id_of cam i \<longrightarrow>
                duration r = py_round 1 (fst (later ! k) - t2) \<and>
                alert_threshold s \<le> fst (later ! k) - t2)"
proof -
  let ?s1 = "fst (detect s cam t1 ds1)"
  let ?s2 = "fst (detect ?s1 cam t2 ds2)"
  have hog1: "hog_loaded ?s1" using assms(1) by (simp add: detect_hog)
  have hog2: "hog_loaded ?s2" using hog1 by (simp add: detect_hog)
  have thr: "alert_threshold ?s2 = alert_threshold s" by (simp add: detect_threshold)
  have w1: "violation_time ?s1 cam (worker_id_of cam i) = None"
    using assms(1,2) by (simp add: detect_window_cases shows_compliant_def shows_noncompliant_def)
  have w2: "violation_time ?s2 cam (worker_id_of cam i) = Some t2"
    using hog1 assms(3) w1 by (simp add: detect_window_cases window_start_def)
  have "\<forall>k < length later. \<forall>r \<in> set (snd (run_detect ?s2 cam later) ! k).
          worker_id r = worker_id_of cam i \<longrightarrow>
            duration r = py_round 1 (fst (later ! k) - t2) \<and>
            alert_threshold s \<le> fst (later ! k) - t2"
    using run_records_measured [OF hog2 w2 assms(4)] thr by auto
  with w1 w2 show ?thesis by blast
qed

text \<open>
  Witness for C2: a window opened at 0, a compliant frame at 1, non-compliance again at 2
  and still at 5. The record emitted at 5 has duration 3, measured from 2.
\<close>

theorem compliance_resets_hysteresis_witness:
  "violation_time (fst (detect (init_safety True) 1 0 [subject 0.9 [''helmet''] (Returns True)]))
     1 (worker_id_of 1 0) = Some 0 \<and>
   violation_time (fst (detect (fst (detect (init_safety True) 1 0 [subject 0.9 [''helmet''] (Returns True)]))
     1 1 [subject 0.9 [] (Returns True)])) 1 (worker_id_of 1 0) = None \<and>
   violation_time (fst (detect (fst (detect (fst (detect (init_safety True) 1 0
       [subject 0.9 [''helmet''] (Returns True)]))
     1 1 [subject 0.9 [] (Returns True)])) 1 2 [subject 0.9 [''helmet''] (Returns True)]))
     1 (worker_id_of 1 0) = Some 2 \<and>
   map duration (snd (run_detect (fst (detect (fst (detect (fst (detect (init_safety True) 1 0
       [subject 0.9 [''helmet''] (Returns True)]))
     1 1 [subject 0.9 [] (Returns True)])) 1 2 [subject 0.9 [''helmet''] (Returns True)]))
     1 [(5, [subject 0.9 [''helmet''] (Returns True)])]) ! 0) = [py_round 1 (5 - 2)] \<and>
   py_round 1 (5 - 2) = 3"
proof -
  let ?nc = "subject 0.9 [''helmet''] (Returns True)"
  let ?ok = "subject 0.9 [] (Returns True)"
  let ?s = "fst (detect (init_safety True) 1 0 [?nc])"
  let ?s2 = "fst (detect (fst (detect ?s 1 1 [?ok])) 1 2 [?nc])"
  have h1: "hog_loaded ?s" by (simp add: detect_hog init_safety_def)
  have h2: "shows_compliant 0 [?ok]" and h3: "shows_noncompliant 0 [?nc]"
    and h4: "\<forall>f \<in> set [(5, [?nc])]. \<not> shows_compliant 0 (snd f)"
    by (simp_all add: safety_eval)
  have w0: "violation_time ?s 1 (worker_id_of 1 0) = Some 0"
    by (simp add: safety_eval)
  have ids: "map worker_id (snd (run_detect ?s2 1 [(5, [?nc])]) ! 0) = [worker_id_of 1 0]"
    by (simp add: safety_eval)
  then obtain r where r: "snd (run_detect ?s2 1 [(5, [?nc])]) ! 0 = [r]"
    and w: "worker_id r = worker_id_of 1 0"
    by auto
  have rnd: "py_round 1 (5 - 2) = 3"
    by (simp add: py_round_def round_half_even_def)
  from compliance_resets_hysteresis [OF h1 h2 h3 h4, of 1 1 2] r w w0 rnd
  show ?thesis by simp
qed

lemma run_window_origin:
  assumes "hog_loaded s"
    and "violation_time (fst (run_detect s cam frames)) cam (worker_id_of cam i) = Some t0"
  shows "(violation_time s cam (worker_id_of cam i) = Some t0 \<and>
          (\<forall>f \<in> set frames. \<not> shows_compliant i (snd f))) \<or>
         (\<exists>k < length frames. fst (frames ! k) = t0 \<and> shows_noncompliant i (snd (frames ! k)) \<and>
            (\<forall>j. k < j \<and> j < length frames \<longrightarrow> \<not> shows_compliant i (snd (frames ! j))))"
  using assms
proof (induction frames arbitrary: s)
  case Nil
  then show ?case by simp
next
  case (Cons f fs)
  let ?s1 = "fst (detect s cam (fst f) (snd f))"
  have hog1: "hog_loaded ?s1" using Cons.prems(1) by (simp add: detect_hog)
  have fin: "violation_time (fst (run_detect ?s1 cam fs)) cam (worker_id_of cam i) = Some t0"
    using Cons.prems(2) by (simp add: Let_def)
  from Cons.IH [OF hog1 fin]
  consider (kept) "violation_time ?s1 cam (worker_id_of cam i) = Some t0"
      "\<forall>f \<in> set fs. \<not> shows_compliant i (snd f)"
    | (made) k where "k < length fs" "fst (fs ! k) = t0" "shows_noncompliant i (snd (fs ! k))"
      "\<forall>j. k < j \<and> j < length fs \<longrightarrow> \<not> shows_compliant i (snd (fs ! j))"
    by blast
  then show ?case
  proof cases
    case kept
    have later: "\<forall>j. 0 < j \<and> j < length (f # fs) \<longrightarrow> \<not> shows_compliant i (snd ((f # fs) ! j))"
      using kept(2) by (auto simp: nth_Cons')
    show ?thesis
    proof (cases "shows_noncompliant i (snd f)")
      case True
      show ?thesis
      proof (cases "violation_time s cam (worker_id_of cam i)")
        case None
        with kept(1) True Cons.prems(1) have "fst f = t0"
          by (simp add: detect_window_cases window_start_def)
        with True later show ?thesis
          by (intro disjI2 exI [of _ 0]) simp
      next
        case (Some a)
        with kept(1) True Cons.prems(1) have "a = t0"
          by (simp add: detect_window_cases window_start_def)
        moreover have "\<not> shows_compliant i (snd f)"
          using True by (simp add: shows_compliant_def shows_noncompliant_def)
        ultimately show ?thesis using Some kept(2) by simp
      qed
    next
      case False
      with kept(1) Cons.prems(1)
      have "\<not> shows_compliant i (snd f)" and "violation_time s cam (worker_id_of cam i) = Some t0"
        by (simp_all add: detect_window_cases split: if_splits)
      with kept(2) show ?thesis by simp
    qed
  next
    case made
    have "\<forall>j. Suc k < j \<and> j < length (f # fs) \<longrightarrow> \<not> shows_compliant i (snd ((f # fs) ! j))"
    proof (intro allI impI)
      fix j assume j: "Suc k < j \<and> j < length (f # fs)"
      then obtain j' where "j = Suc j'" by (cases j) auto
      with j made(4) show "\<not> shows_compliant i (snd ((f # fs) ! j))" by simp
    qed
    with made(1,2,3) show ?thesis
      by (intro disjI2 exI [of _ "Suc k"]) simp
  qed
qed

text \<open>
  Claim C6, as stated, fails: a frame in which the subject is not detected leaves the
  window in place. Worker 0 is seen without a helmet at time 0; the frame at time 1 has no
  detection at all; the window opened at 0 is still there, and the frame at time 3 emits a
  record of duration 3.
\<close>

theorem window_survives_undetected_frame:
  "\<not> shows_noncompliant 0 [] \<and>
   violation_time (fst (detect (fst (detect (init_safety True) 1 0
       [subject 0.9 [''helmet''] (Returns True)])) 1 1 [])) 1 (worker_id_of 1 0) = Some 0 \<and>
   map duration (snd (detect (fst (detect (fst (detect (init_safety True) 1 0
       [subject 0.9 [''helmet''] (Returns True)])) 1 1 [])) 1 3
       [subject 0.9 [''helmet''] (Returns True)])) = [3]"
  by (simp add: safety_eval)

text \<open>
  Claim C6, amended. A detection pass with a loaded detector opens or keeps the window of
  a subject the frame shows non-compliant, deletes the window of a subject the frame shows
  compliant, and leaves the window of a subject that is not among the valid boxes as it
  was. Hence a window found after a run that started without one was created by a frame
  showing the subject non-compliant, at that frame's time, and no later frame of the run
  showed the subject compliant.
\<close>

theorem window_tracks_detected_frames:
  assumes "hog_loaded s"
  shows "violation_time (fst (detect s cam now dets)) cam (worker_id_of cam i)
           = (if shows_noncompliant i dets then Some (window_start s cam (worker_id_of cam i) now)
              else if shows_compliant i dets then None
              else violation_time s cam (worker_id_of cam i)) \<and>
         (violation_time s cam (worker_id_of cam i) = None \<longrightarrow>
          violation_time (fst (run_detect s cam frames)) cam (worker_id_of cam i) = Some t0 \<longrightarrow>
          (\<exists>k < length frames. fst (frames ! k) = t0 \<and> shows_noncompliant i (snd (frames ! k)) \<and>
             (\<forall>j. k < j \<and> j < length frames \<longrightarrow> \<not> shows_compliant i (snd (frames ! j)))))"
proof (intro conjI impI)
  show "violation_time (fst (detect s cam now dets)) cam (worker_id_of cam i)
           = (if shows_noncompliant i dets then Some (window_start s cam (worker_id_of cam i) now)
              else if shows_compliant i dets then None
              else violation_time s cam (worker_id_of cam i))"
    using assms by (rule detect_window_cases)
next
  assume none: "violation_time s cam (worker_id_of cam i) = None"
    and fin: "violation_time (fst (run_detect s cam frames)) cam (worker_id_of cam i) = Some t0"
  from run_window_origin [OF assms fin] none
  show "\<exists>k < length frames. fst (frames ! k) = t0 \<and> shows_noncompliant i (snd (frames ! k)) \<and>
          (\<forall>j. k < j \<and> j < length frames \<longrightarrow> \<not> shows_compliant i (snd (frames ! j)))"
    by simp
qed

text \<open>
  Witness for the amended C6: non-compliance at 0, compliance at 1, non-compliance at 2,
  no detection at 3. The window found at the end starts at 2, the time of frame 2.
\<close>

theorem window_tracks_detected_frames_witness:
  "violation_time (fst (run_detect (init_safety True) 1
      [(0, [subject 0.9 [''helmet''] (Returns True)]), (1, [subject 0.9 [] (Returns True)]),
       (2, [subject 0.9 [''helmet''] (Returns True)]), (3, [])])) 1 (worker_id_of 1 0) = Some 2 \<and>
   (\<exists>k < length [(0 :: real, [subject 0.9 [''helmet''] (Returns True)]),
         (1, [subject 0.9 [] (Returns True)]),
         (2, [subject 0.9 [''helmet''] (Returns True)]), (3, [])].
      fst ([(0, [subject 0.9 [''helmet''] (Returns True)]), (1, [subject 0.9 [] (Returns True)]),
       (2, [subject 0.9 [''helmet''] (Returns True)]), (3 :: real, [])] ! k) = 2) \<and>
   violation_time (fst (detect (init_safety True) 1 0 [subject 0.9 [] (Returns True)])) 1
      (worker_id_of 1 0) = None"
proof -
  let ?fs = "[(0, [subject 0.9 [''helmet''] (Returns True)]), (1, [subject 0.9 [] (Returns True)]),
       (2, [subject 0.9 [''helmet''] (Returns True)]), (3 :: real, [])]"
  have h: "hog_loaded (init_safety True)"
    and none: "violation_time (init_safety True) 1 (worker_id_of 1 0) = None"
    by (simp_all add: safety_eval)
  have fin: "violation_time (fst (run_detect (init_safety True) 1 ?fs)) 1 (worker_id_of 1 0) = Some 2"
    by (simp add: safety_eval)
  have c: "shows_compliant 0 [subject 0.9 [] (Returns True)]"
    and nc: "\<not> shows_noncompliant 0 [subject 0.9 [] (Returns True)]"
    by (simp_all add: safety_eval)
  from window_tracks_detected_frames [OF h, of 1 0 "[subject 0.9 [] (Returns True)]" 0 ?fs 2]
  have "violation_time (fst (detect (init_safety True) 1 0 [subject 0.9 [] (Returns True)])) 1
          (worker_id_of 1 0) = None"
    and "\<exists>k < length ?fs. fst (?fs ! k) = 2"
    using none fin c nc by auto
  with fin show ?thesis by blast
qed

text \<open>
  What every outcome of \<^verbatim>\<open>cv2.imwrite\<close> has in common: a subject that qualifies for
  emission gets exactly one record in the returned list, and that record is in the
  history, whatever \<^verbatim>\<open>imwrite\<close> does for this or for any other subject of the pass.
  The record's screenshot reference is absent exactly when \<^verbatim>\<open>imwrite\<close> raised.
\<close>

lemma qualifying_subject_is_recorded:
  assumes "hog_loaded s" and "shows_noncompliant k dets"
    and "alert_threshold s \<le> now - window_start s cam (worker_id_of cam k) now"
  shows "\<exists>r. filter (\<lambda>r. worker_id r = worker_id_of cam k) (snd (detect s cam now dets)) = [r] \<and>
              r \<in> set (violation_history (fst (detect s cam now dets))) \<and>
              missing_gear r = missing (valid_boxes dets ! k) \<and>
              (screenshot r = None) = (shot (valid_boxes dets ! k) = Raises) \<and>
              (shot (valid_boxes dets ! k) = Raises \<longrightarrow> screenshot r = None)"
proof -
  let ?d = "valid_boxes dets ! k"
  let ?r = "\<lparr>worker_id = worker_id_of cam k, missing_gear = missing ?d,
             duration = py_round 1 (now - window_start s cam (worker_id_of cam k) now),
             screenshot = capture_violation_screenshot (shot ?d) (stamp ?d) cam
                            (worker_id_of cam k) ''safety_gear'',
             timestamp = iso ?d, camera_id = cam\<rparr>"
  have f: "filter (\<lambda>r. worker_id r = worker_id_of cam k) (snd (detect s cam now dets)) = [?r]"
    using assms by (simp add: detect_records_of_subject process_subject_alone shows_noncompliant_def)
  then have "?r \<in> set (filter (\<lambda>r. worker_id r = worker_id_of cam k) (snd (detect s cam now dets)))"
    by simp
  then have "?r \<in> set (snd (detect s cam now dets))" by simp
  then have h: "?r \<in> set (violation_history (fst (detect s cam now dets)))"
    by (simp add: detect_history)
  have sc: "(screenshot ?r = None) = (shot ?d = Raises)"
    by (cases "shot ?d") (simp_all add: capture_violation_screenshot_def)
  from f h sc show ?thesis by (intro exI [of _ ?r]) auto
qed

text \<open>
  Two workers past the threshold in one frame; saving the screenshot of the first raises.
  Both records are returned and stored, the first without a screenshot.
\<close>

lemma qualifying_subject_is_recorded_example:
  "map screenshot (snd (detect (fst (detect (init_safety True) 1 0
       [subject 0.9 [''helmet''] Raises, subject 0.8 [''vest''] (Returns True)])) 1 3
       [subject 0.9 [''helmet''] Raises, subject 0.8 [''vest''] (Returns True)]))
     = [None, Some ''/static/violations/safety_gear/safety_gear_1_worker_1_1_20240101_120000.jpg''] \<and>
   (\<exists>r. filter (\<lambda>r. worker_id r = worker_id_of 1 0) (snd (detect (fst (detect (init_safety True) 1 0
       [subject 0.9 [''helmet''] Raises, subject 0.8 [''vest''] (Returns True)])) 1 3
       [subject 0.9 [''helmet''] Raises, subject 0.8 [''vest''] (Returns True)])) = [r] \<and>
      r \<in> set (violation_history (fst (detect (fst (detect (init_safety True) 1 0
       [subject 0.9 [''helmet''] Raises, subject 0.8 [''vest''] (Returns True)])) 1 3
       [subject 0.9 [''helmet''] Raises, subject 0.8 [''vest''] (Returns True)]))) \<and>
      screenshot r = None)"
proof -
  let ?ds = "[subject 0.9 [''helmet''] Raises, subject 0.8 [''vest''] (Returns True)]"
  let ?s = "fst (detect (init_safety True) 1 0 ?ds)"
  have h1: "hog_loaded ?s" by (simp add: detect_hog init_safety_def)
  have h2: "shows_noncompliant 0 ?ds" by (simp add: safety_eval)
  have h3: "alert_threshold ?s \<le> 3 - window_start ?s 1 (worker_id_of 1 0) 3"
    by (simp add: safety_eval)
  have raised: "shot (valid_boxes ?ds ! 0) = Raises" by (simp add: safety_eval)
  have ev: "map screenshot (snd (detect ?s 1 3 ?ds))
     = [None, Some ''/static/violations/safety_gear/safety_gear_1_worker_1_1_20240101_120000.jpg'']"
    by (simp add: safety_eval)
  from qualifying_subject_is_recorded [OF h1 h2 h3] raised
  have "\<exists>r. filter (\<lambda>r. worker_id r = worker_id_of 1 0) (snd (detect ?s 1 3 ?ds)) = [r] \<and>
      r \<in> set (violation_history (fst (detect ?s 1 3 ?ds))) \<and> screenshot r = None"
    by auto
  with ev show ?thesis by simp
qed

text \<open>
  Claim C9 at its failing input. \<^verbatim>\<open>cv2.imwrite\<close> reports a file it could not write
  by returning \<^verbatim>\<open>False\<close>, without raising. \<^verbatim>\<open>_capture_violation_screenshot\<close>
  does not look at the returned value, so a failed save is treated like a successful one:
  the record of a worker past the threshold is returned and stored with the path of a
  file that was never written. Only a save that raises gives a record without a
  screenshot reference.
\<close>

theorem unsaved_screenshot_is_still_referenced:
  "map screenshot (snd (detect (fst (detect (init_safety True) 1 0
       [subject 0.9 [''helmet''] (Returns False)])) 1 3
       [subject 0.9 [''helmet''] (Returns False)]))
     = [Some ''/static/violations/safety_gear/safety_gear_1_worker_1_0_20240101_120000.jpg''] \<and>
   map screenshot (violation_history (fst (detect (fst (detect (init_safety True) 1 0
       [subject 0.9 [''helmet''] (Returns False)])) 1 3
       [subject 0.9 [''helmet''] (Returns False)])))
     = [Some ''/static/violations/safety_gear/safety_gear_1_worker_1_0_20240101_120000.jpg''] \<and>
   map screenshot (snd (detect (fst (detect (init_safety True) 1 0
       [subject 0.9 [''helmet''] Raises])) 1 3
       [subject 0.9 [''helmet''] Raises])) = [None] \<and>
   capture_violation_screenshot (Returns False) ts cam wid violation_type
     = capture_violation_screenshot (Returns True) ts cam wid violation_type"
  by (simp add: safety_eval)

section \<open>A pass of the proximity detector, pair by pair\<close>

lemma check_pair_alone:
  "snd (check_pair env now cam i w j m (s, []))
     = (if distance_between (center w) (center m) < proximity_threshold s \<and>
           alert_cooldown s \<le> now - last_alert s cam (proximity_key cam i j)
        then [\<lparr>alert_worker_id = worker_id_of cam i, machine_id = machine_id_of cam j,
               distance = py_round 2 (distance_between (center w) (center m)),
               alert_screenshot = capture_violation_screenshot (pair_shot env i j)
                                    (pair_stamp env i j) cam (worker_id_of cam i) ''proximity'',
               alert_timestamp = pair_iso env i j, alert_camera_id = cam\<rparr>]
        else [])"
  by (simp add: check_pair_def Let_def)

lemma check_pair_snd:
  "snd (check_pair env now cam i w j m acc)
     = snd acc @ snd (check_pair env now cam i w j m (fst acc, []))"
  by (simp add: check_pair_def Let_def)

lemma check_pair_hist:
  "proximity_history (fst (check_pair env now cam i w j m acc))
     = proximity_history (fst acc) @ snd (check_pair env now cam i w j m (fst acc, []))"
  by (simp add: check_pair_def Let_def)

lemma check_pair_consts:
  "proximity_threshold (fst (check_pair env now cam i w j m acc)) = proximity_threshold (fst acc)"
  "alert_cooldown (fst (check_pair env now cam i w j m acc)) = alert_cooldown (fst acc)"
  "machinery_positions (fst (check_pair env now cam i w j m acc)) = machinery_positions (fst acc)"
  by (simp_all add: check_pair_def Let_def)

lemma check_pair_history_other:
  "cam' \<noteq> cam \<or> key \<noteq> proximity_key cam i j \<Longrightarrow>
   alert_history (fst (check_pair env now cam i w j m acc)) cam' key
     = alert_history (fst acc) cam' key"
  by (auto simp: check_pair_def Let_def)

lemma check_pair_history_same:
  "alert_history (fst (check_pair env now cam i w j m acc)) cam (proximity_key cam i j)
     = (if distance_between (center w) (center m) < proximity_threshold (fst acc) \<and>
           alert_cooldown (fst acc) \<le> now - last_alert (fst acc) cam (proximity_key cam i j)
        then Some now else alert_history (fst acc) cam (proximity_key cam i j))"
  by (simp add: check_pair_def Let_def)

lemma check_pair_cong:
  "proximity_threshold s = proximity_threshold s' \<Longrightarrow> alert_cooldown s = alert_cooldown s' \<Longrightarrow>
   alert_history s cam (proximity_key cam i j) = alert_history s' cam (proximity_key cam i j) \<Longrightarrow>
   snd (check_pair env now cam i w j m (s, [])) = snd (check_pair env now cam i w j m (s', []))"
  by (simp add: check_pair_alone last_alert_def)

lemma machinery_loop_consts:
  "proximity_threshold (fst (machinery_loop env now cam i w j ms acc)) = proximity_threshold (fst acc)"
  "alert_cooldown (fst (machinery_loop env now cam i w j ms acc)) = alert_cooldown (fst acc)"
  "machinery_positions (fst (machinery_loop env now cam i w j ms acc)) = machinery_positions (fst acc)"
  by (induction ms arbitrary: j acc; simp add: check_pair_consts)+

lemma machinery_loop_history_outside:
  "cam' \<noteq> cam \<or> i' \<noteq> i \<or> k < j \<or> j + length ms \<le> k \<Longrightarrow>
   alert_history (fst (machinery_loop env now cam i w j ms acc)) cam' (proximity_key cam i' k)
     = alert_history (fst acc) cam' (proximity_key cam i' k)"
proof (induction ms arbitrary: j acc)
  case Nil
  then show ?case by simp
next
  case (Cons m ms)
  from Cons.prems have "cam' \<noteq> cam \<or> i' \<noteq> i \<or> k \<noteq> j"
    and "cam' \<noteq> cam \<or> i' \<noteq> i \<or> k < Suc j \<or> Suc j + length ms \<le> k" by auto
  then show ?case
    by (simp add: Cons.IH check_pair_history_other proximity_key_inj)
qed

lemma pair_emit_after_other:
  assumes "p \<in> set (enumerate (Suc j) ms)"
  shows "(case p of (k, m') \<Rightarrow>
            snd (check_pair env now cam i w k m' (fst (check_pair env now cam i w j m acc), [])))
       = (case p of (k, m') \<Rightarrow> snd (check_pair env now cam i w k m' (fst acc, [])))"
proof -
  from assms have "fst p \<noteq> j" by (auto simp: in_set_enumerate_eq)
  then show ?thesis
    by (cases p)
       (simp add: check_pair_cong [of "fst (check_pair env now cam i w j m acc)" "fst acc"]
          check_pair_consts check_pair_history_other proximity_key_inj)
qed

lemma pair_emits_after_other:
  "map (\<lambda>(k, m'). snd (check_pair env now cam i w k m' (fst (check_pair env now cam i w j m acc), [])))
     (enumerate (Suc j) ms)
   = map (\<lambda>(k, m'). snd (check_pair env now cam i w k m' (fst acc, []))) (enumerate (Suc j) ms)"
  by (rule map_cong [OF refl]) (rule pair_emit_after_other)

lemma machinery_loop_snd:
  "snd (machinery_loop env now cam i w j ms acc)
     = snd acc @ concat (map (\<lambda>(k, m). snd (check_pair env now cam i w k m (fst acc, [])))
                          (enumerate j ms))"
proof (induction ms arbitrary: j acc)
  case Nil
  then show ?case by simp
next
  case (Cons m ms)
  have "snd (machinery_loop env now cam i w j (m # ms) acc)
          = snd (check_pair env now cam i w j m acc)
            @ concat (map (\<lambda>(k, m'). snd (check_pair env now cam i w k m'
                 (fst (check_pair env now cam i w j m acc), []))) (enumerate (Suc j) ms))"
    by (simp add: Cons.IH)
  also have "\<dots> = (snd acc @ snd (check_pair env now cam i w j m (fst acc, [])))
            @ concat (map (\<lambda>(k, m'). snd (check_pair env now cam i w k m' (fst acc, [])))
                 (enumerate (Suc j) ms))"
    by (simp only: pair_emits_after_other check_pair_snd [of env now cam i w j m acc])
  finally show ?case by simp
qed

lemma machinery_loop_hist:
  "proximity_history (fst (machinery_loop env now cam i w j ms acc))
     = proximity_history (fst acc)
       @ concat (map (\<lambda>(k, m). snd (check_pair env now cam i w k m (fst acc, [])))
                   (enumerate j ms))"
proof (induction ms arbitrary: j acc)
  case Nil
  then show ?case by simp
next
  case (Cons m ms)
  have "proximity_history (fst (machinery_loop env now cam i w j (m # ms) acc))
          = proximity_history (fst (check_pair env now cam i w j m acc))
            @ concat (map (\<lambda>(k, m'). snd (check_pair env now cam i w k m'
                 (fst (check_pair env now cam i w j m acc), []))) (enumerate (Suc j) ms))"
    by (simp add: Cons.IH)
  also have "\<dots> = (proximity_history (fst acc) @ snd (check_pair env now cam i w j m (fst acc, [])))
            @ concat (map (\<lambda>(k, m'). snd (check_pair env now cam i w k m' (fst acc, [])))
                 (enumerate (Suc j) ms))"
    by (simp only: pair_emits_after_other check_pair_hist)
  finally show ?case by simp
qed

lemma machinery_loop_history_inside:
  "j \<le> k \<Longrightarrow> k < j + length ms \<Longrightarrow>
   alert_history (fst (machinery_loop env now cam i w j ms acc)) cam (proximity_key cam i k)
     = (if distance_between (center w) (center (ms ! (k - j))) < proximity_threshold (fst acc) \<and>
           alert_cooldown (fst acc) \<le> now - last_alert (fst acc) cam (proximity_key cam i k)
        then Some now else alert_history (fst acc) cam (proximity_key cam i k))"
proof (induction ms arbitrary: j acc)
  case Nil
  then show ?case by simp
next
  case (Cons m ms)
  show ?case
  proof (cases "k = j")
    case True
    then show ?thesis
      by (simp add: machinery_loop_history_outside check_pair_history_same)
  next
    case False
    with Cons.prems have "Suc j \<le> k" and "k < Suc j + length ms" by auto
    moreover have "(m # ms) ! (k - j) = ms ! (k - Suc j)"
      using False Cons.prems by (simp add: nth_Cons')
    ultimately show ?thesis
      using False
      by (simp add: Cons.IH check_pair_consts check_pair_history_other proximity_key_inj
          last_alert_def)
  qed
qed

lemma machinery_loop_cong:
  assumes "proximity_threshold s = proximity_threshold s'" and "alert_cooldown s = alert_cooldown s'"
    and "\<And>k. alert_history s cam (proximity_key cam i k) = alert_history s' cam (proximity_key cam i k)"
  shows "snd (machinery_loop env now cam i w j ms (s, []))
       = snd (machinery_loop env now cam i w j ms (s', []))"
proof -
  have eq: "map (\<lambda>(k, m). snd (check_pair env now cam i w k m (s, []))) (enumerate j ms)
      = map (\<lambda>(k, m). snd (check_pair env now cam i w k m (s', []))) (enumerate j ms)"
    by (rule map_cong [OF refl])
       (auto simp: check_pair_cong [OF assms(1,2) assms(3)])
  show ?thesis
    by (simp only: machinery_loop_snd fst_conv snd_conv eq)
qed

lemma worker_loop_consts:
  "proximity_threshold (fst (worker_loop env now cam ms i ws acc)) = proximity_threshold (fst acc)"
  "alert_cooldown (fst (worker_loop env now cam ms i ws acc)) = alert_cooldown (fst acc)"
  "machinery_positions (fst (worker_loop env now cam ms i ws acc)) = machinery_positions (fst acc)"
  by (induction ws arbitrary: i acc; simp add: machinery_loop_consts)+

lemma worker_loop_history_outside:
  "cam' \<noteq> cam \<or> k < i \<or> i + length ws \<le> k \<Longrightarrow>
   alert_history (fst (worker_loop env now cam ms i ws acc)) cam' (proximity_key cam k l)
     = alert_history (fst acc) cam' (proximity_key cam k l)"
proof (induction ws arbitrary: i acc)
  case Nil
  then show ?case by simp
next
  case (Cons w ws)
  from Cons.prems have "cam' \<noteq> cam \<or> k \<noteq> i"
    and "cam' \<noteq> cam \<or> k < Suc i \<or> Suc i + length ws \<le> k" by auto
  then show ?case
    using machinery_loop_history_outside [of cam' cam k i l 0 ms env now w acc]
    by (auto simp: Cons.IH)
qed

lemma worker_emit_after_other:
  assumes "p \<in> set (enumerate (Suc i) ws)"
  shows "(case p of (k, w') \<Rightarrow>
            snd (machinery_loop env now cam k w' 0 ms
                   (fst (machinery_loop env now cam i w 0 ms acc), [])))
       = (case p of (k, w') \<Rightarrow> snd (machinery_loop env now cam k w' 0 ms (fst acc, [])))"
proof -
  from assms have "fst p \<noteq> i" by (auto simp: in_set_enumerate_eq)
  then show ?thesis
    by (cases p)
       (auto intro!: machinery_loop_cong
          simp: machinery_loop_consts machinery_loop_history_outside)
qed

lemma worker_emits_after_other:
  "map (\<lambda>(k, w'). snd (machinery_loop env now cam k w' 0 ms
          (fst (machinery_loop env now cam i w 0 ms acc), []))) (enumerate (Suc i) ws)
   = map (\<lambda>(k, w'). snd (machinery_loop env now cam k w' 0 ms (fst acc, []))) (enumerate (Suc i) ws)"
  by (rule map_cong [OF refl]) (rule worker_emit_after_other)

lemma machinery_loop_snd_split:
  "snd (machinery_loop env now cam i w j ms acc)
     = snd acc @ snd (machinery_loop env now cam i w j ms (fst acc, []))"
  by (simp add: machinery_loop_snd)

lemma machinery_loop_hist_split:
  "proximity_history (fst (machinery_loop env now cam i w j ms acc))
     = proximity_history (fst acc) @ snd (machinery_loop env now cam i w j ms (fst acc, []))"
  by (simp add: machinery_loop_snd machinery_loop_hist)

lemma worker_loop_snd:
  "snd (worker_loop env now cam ms i ws acc)
     = snd acc @ concat (map (\<lambda>(k, w). snd (machinery_loop env now cam k w 0 ms (fst acc, [])))
                          (enumerate i ws))"
proof (induction ws arbitrary: i acc)
  case Nil
  then show ?case by simp
next
  case (Cons w ws)
  have "snd (worker_loop env now cam ms i (w # ws) acc)
          = snd (machinery_loop env now cam i w 0 ms acc)
            @ concat (map (\<lambda>(k, w'). snd (machinery_loop env now cam k w' 0 ms
                 (fst (machinery_loop env now cam i w 0 ms acc), []))) (enumerate (Suc i) ws))"
    by (simp add: Cons.IH)
  also have "\<dots> = (snd acc @ snd (machinery_loop env now cam i w 0 ms (fst acc, [])))
            @ concat (map (\<lambda>(k, w'). snd (machinery_loop env now cam k w' 0 ms (fst acc, [])))
                 (enumerate (Suc i) ws))"
    by (simp only: worker_emits_after_other machinery_loop_snd_split [of env now cam i w 0 ms acc])
  finally show ?case by simp
qed

lemma worker_loop_hist:
  "proximity_history (fst (worker_loop env now cam ms i ws acc))
     = proximity_history (fst acc)
       @ concat (map (\<lambda>(k, w). snd (machinery_loop env now cam k w 0 ms (fst acc, [])))
                   (enumerate i ws))"
proof (induction ws arbitrary: i acc)
  case Nil
  then show ?case by simp
next
  case (Cons w ws)
  have "proximity_history (fst (worker_loop env now cam ms i (w # ws) acc))
          = proximity_history (fst (machinery_loop env now cam i w 0 ms acc))
            @ concat (map (\<lambda>(k, w'). snd (machinery_loop env now cam k w' 0 ms
                 (fst (machinery_loop env now cam i w 0 ms acc), []))) (enumerate (Suc i) ws))"
    by (simp add: Cons.IH)
  also have "\<dots> = (proximity_history (fst acc) @ snd (machinery_loop env now cam i w 0 ms (fst acc, [])))
            @ concat (map (\<lambda>(k, w'). snd (machinery_loop env now cam k w' 0 ms (fst acc, [])))
                 (enumerate (Suc i) ws))"
    by (simp only: worker_emits_after_other machinery_loop_hist_split)
  finally show ?case by simp
qed

lemma worker_loop_history_inside:
  "i \<le> k \<Longrightarrow> k < i + length ws \<Longrightarrow>
   alert_history (fst (worker_loop env now cam ms i ws acc)) cam (proximity_key cam k l)
     = (if l < length ms \<and>
           distance_between (center (ws ! (k - i))) (center (ms ! l)) < proximity_threshold (fst acc) \<and>
           alert_cooldown (fst acc) \<le> now - last_alert (fst acc) cam (proximity_key cam k l)
        then Some now else alert_history (fst acc) cam (proximity_key cam k l))"
proof (induction ws arbitrary: i acc)
  case Nil
  then show ?case by simp
next
  case (Cons w ws)
  show ?case
  proof (cases "k = i")
    case True
    show ?thesis
    proof (cases "l < length ms")
      case inside: True
      then show ?thesis
        using True machinery_loop_history_inside [of 0 l ms env now cam i w acc]
        by (simp add: worker_loop_history_outside)
    next
      case False
      then show ?thesis
        using True machinery_loop_history_outside [of cam cam i i l 0 ms env now w acc]
        by (simp add: worker_loop_history_outside)
    qed
  next
    case False
    with Cons.prems have "Suc i \<le> k" and "k < Suc i + length ws" by auto
    moreover have "(w # ws) ! (k - i) = ws ! (k - Suc i)"
      using False Cons.prems by (simp add: nth_Cons')
    ultimately show ?thesis
      using False
      by (simp add: Cons.IH machinery_loop_consts machinery_loop_history_outside last_alert_def)
  qed
qed

lemma enumerate_as_map: "enumerate 0 xs = map (\<lambda>i. (i, xs ! i)) [0..<length xs]"
proof -
  have "enumerate 0 (map (nth xs) [0..<length xs]) = map (\<lambda>i. (i, xs ! i)) [0..<length xs]"
    by (rule enumerate_map_upt)
  then show ?thesis by (simp add: map_nth)
qed

lemma concat_if_filter:
  "concat (map (\<lambda>y. if P (x, y) then [g (x, y)] else []) ys) = map g (filter P (map (Pair x) ys))"
  by (induction ys) simp_all

lemma concat_product:
  "concat (map (\<lambda>x. concat (map (\<lambda>y. if P (x, y) then [g (x, y)] else []) ys)) xs)
     = map g (filter P (List.product xs ys))"
  by (induction xs) (simp_all add: concat_if_filter)

lemma check_pair_indexed:
  assumes "i < length ws" and "j < length ms"
    and "proximity_threshold s0 = proximity_threshold s" and "alert_cooldown s0 = alert_cooldown s"
    and "alert_history s0 = alert_history s"
  shows "snd (check_pair env now cam i (ws ! i) j (ms ! j) (s0, []))
     = (if pair_alerts s cam now ws ms (i, j) then [pair_alert env cam ws ms (i, j)] else [])"
  using assms
  by (simp add: check_pair_alone pair_alerts_def pair_near_def pair_alert_def last_alert_def)

lemma worker_loop_as_product:
  assumes "proximity_threshold s0 = proximity_threshold s" and "alert_cooldown s0 = alert_cooldown s"
    and "alert_history s0 = alert_history s"
  shows "snd (worker_loop env now cam ms 0 ws (s0, []))
     = map (pair_alert env cam ws ms)
         (filter (pair_alerts s cam now ws ms) (List.product [0..<length ws] [0..<length ms]))"
proof -
  have inner: "concat (map (\<lambda>(l, m). snd (check_pair env now cam k (ws ! k) l m (s0, [])))
                   (enumerate 0 ms))
      = concat (map (\<lambda>l. if pair_alerts s cam now ws ms (k, l)
                          then [pair_alert env cam ws ms (k, l)] else []) [0..<length ms])"
    if "k < length ws" for k
  proof -
    have "map (\<lambda>(l, m). snd (check_pair env now cam k (ws ! k) l m (s0, []))) (enumerate 0 ms)
        = map (\<lambda>l. snd (check_pair env now cam k (ws ! k) l (ms ! l) (s0, []))) [0..<length ms]"
      by (simp add: enumerate_as_map comp_def)
    also have "\<dots> = map (\<lambda>l. if pair_alerts s cam now ws ms (k, l)
                          then [pair_alert env cam ws ms (k, l)] else []) [0..<length ms]"
      by (rule map_cong [OF refl]) (simp add: check_pair_indexed [OF that _ assms])
    finally show ?thesis by simp
  qed
  have "snd (worker_loop env now cam ms 0 ws (s0, []))
      = concat (map (\<lambda>k. concat (map (\<lambda>(l, m). snd (check_pair env now cam k (ws ! k) l m (s0, [])))
                   (enumerate 0 ms))) [0..<length ws])"
    by (simp add: worker_loop_snd machinery_loop_snd enumerate_as_map [of ws] comp_def)
  also have "\<dots> = concat (map (\<lambda>k. concat (map (\<lambda>l. if pair_alerts s cam now ws ms (k, l)
                          then [pair_alert env cam ws ms (k, l)] else []) [0..<length ms]))
                   [0..<length ws])"
    by (rule arg_cong [where f = concat], rule map_cong [OF refl]) (simp add: inner)
  also have "\<dots> = map (pair_alert env cam ws ms)
         (filter (pair_alerts s cam now ws ms) (List.product [0..<length ws] [0..<length ms]))"
    by (rule concat_product)
  finally show ?thesis .
qed

lemma proximity_detect_alerts:
  "snd (proximity_detect s env cam now ms boxes)
     = map (pair_alert env cam (valid_workers boxes) ms)
         (filter (pair_alerts s cam now (valid_workers boxes) ms)
            (List.product [0..<length (valid_workers boxes)] [0..<length ms]))"
  unfolding proximity_detect_def
  by (rule worker_loop_as_product) simp_all

lemma proximity_detect_history:
  "proximity_history (fst (proximity_detect s env cam now ms boxes))
     = proximity_history s @ snd (proximity_detect s env cam now ms boxes)"
  by (simp add: proximity_detect_def worker_loop_hist worker_loop_snd)

lemma proximity_detect_consts:
  "proximity_threshold (fst (proximity_detect s env cam now ms boxes)) = proximity_threshold s"
  "alert_cooldown (fst (proximity_detect s env cam now ms boxes)) = alert_cooldown s"
  by (simp_all add: proximity_detect_def worker_loop_consts)

lemma proximity_detect_last:
  "alert_history (fst (proximity_detect s env cam now ms boxes)) cam (proximity_key cam i j)
     = (if pair_alerts s cam now (valid_workers boxes) ms (i, j) then Some now
        else alert_history s cam (proximity_key cam i j))"
proof (cases "i < length (valid_workers boxes)")
  case True
  then show ?thesis
    using worker_loop_history_inside [of 0 i "valid_workers boxes" env now cam ms
        "(s\<lparr>machinery_positions := (machinery_positions s)(cam \<mapsto> ms)\<rparr>, [])" j]
    by (auto simp: proximity_detect_def pair_alerts_def pair_near_def last_alert_def)
next
  case False
  then show ?thesis
    using worker_loop_history_outside [of cam cam i 0 "valid_workers boxes" env now ms
        "(s\<lparr>machinery_positions := (machinery_positions s)(cam \<mapsto> ms)\<rparr>, [])" j]
    by (simp add: proximity_detect_def pair_alerts_def pair_near_def)
qed

lemma pair_alert_ids:
  "alert_worker_id (pair_alert env cam ws ms p) = worker_id_of cam (fst p)"
  "machine_id (pair_alert env cam ws ms p) = machine_id_of cam (snd p)"
  by (simp_all add: pair_alert_def)

lemma filter_eq_single:
  "distinct xs \<Longrightarrow> filter (\<lambda>p. p = a) xs = (if a \<in> set xs then [a] else [])"
  by (induction xs) auto

lemma proximity_detect_alerts_of_pair:
  "filter (\<lambda>a. alert_worker_id a = worker_id_of cam i \<and> machine_id a = machine_id_of cam j)
     (snd (proximity_detect s env cam now ms boxes))
   = (if pair_alerts s cam now (valid_workers boxes) ms (i, j)
      then [pair_alert env cam (valid_workers boxes) ms (i, j)] else [])"
proof -
  let ?ws = "valid_workers boxes"
  let ?prod = "List.product [0..<length ?ws] [0..<length ms]"
  have ids: "(\<lambda>p. alert_worker_id (pair_alert env cam ?ws ms p) = worker_id_of cam i \<and>
                 machine_id (pair_alert env cam ?ws ms p) = machine_id_of cam j)
           = (\<lambda>p. p = (i, j))"
    by (auto simp: pair_alert_ids worker_id_of_inj machine_id_of_inj fun_eq_iff)
  have "distinct ?prod" by (simp add: distinct_product)
  then have single: "filter (\<lambda>p. p = (i, j)) ?prod
      = (if (i, j) \<in> set ?prod then [(i, j)] else [])"
    by (rule filter_eq_single)
  have "filter (\<lambda>a. alert_worker_id a = worker_id_of cam i \<and> machine_id a = machine_id_of cam j)
          (snd (proximity_detect s env cam now ms boxes))
      = map (pair_alert env cam ?ws ms)
          (filter (pair_alerts s cam now ?ws ms) (filter (\<lambda>p. p = (i, j)) ?prod))"
    by (simp add: proximity_detect_alerts filter_map comp_def ids conj_commute)
  also have "\<dots> = (if pair_alerts s cam now ?ws ms (i, j)
      then [pair_alert env cam ?ws ms (i, j)] else [])"
    by (auto simp: single pair_alerts_def pair_near_def)
  finally show ?thesis .
qed

section \<open>Order and cooldown of proximity alerts\<close>

lemma sqrt_less_iff_square: "0 \<le> t \<Longrightarrow> sqrt x < t \<longleftrightarrow> x < t\<^sup>2"
proof -
  assume t: "0 \<le> t"
  then have "sqrt x < t \<longleftrightarrow> sqrt x < sqrt (t\<^sup>2)" by simp
  also have "\<dots> \<longleftrightarrow> x < t\<^sup>2" by (rule real_sqrt_less_iff)
  finally show ?thesis .
qed

lemma sorted_product:
  assumes "sorted_wrt (<) (xs :: nat list)" and "sorted_wrt (<) (ys :: nat list)"
  shows "sorted_wrt (\<lambda>p q. fst p < fst q \<or> fst p = fst q \<and> snd p < snd q) (List.product xs ys)"
  using assms
proof (induction xs)
  case Nil
  then show ?case by simp
next
  case (Cons x xs)
  have "(\<lambda>a b. x < x \<or> a < b) = (<)" by (intro ext) simp
  then have "sorted_wrt (\<lambda>p q. fst p < fst q \<or> fst p = fst q \<and> snd p < snd q) (map (Pair x) ys)"
    using Cons.prems(2) by (simp add: sorted_wrt_map)
  moreover have "sorted_wrt (\<lambda>p q. fst p < fst q \<or> fst p = fst q \<and> snd p < snd q)
      (List.product xs ys)"
    using Cons by simp
  moreover have "\<forall>p \<in> set (map (Pair x) ys). \<forall>q \<in> set (List.product xs ys). fst p < fst q"
    using Cons.prems(1) by auto
  ultimately show ?case
    by (simp add: sorted_wrt_append) blast
qed

lemma sorted_index_pairs:
  "sorted_wrt (\<lambda>p q. fst p < fst q \<or> fst p = fst q \<and> snd p < (snd q :: nat))
     (filter P (List.product [0..<n] [0..<m]))"
  by (intro sorted_wrt_filter sorted_product) simp_all

lemma pair_alerts_cong:
  "proximity_threshold s' = proximity_threshold s \<Longrightarrow> alert_cooldown s' = alert_cooldown s \<Longrightarrow>
   alert_history s' cam = alert_history s cam \<Longrightarrow>
   pair_alerts s' cam now ws ms = pair_alerts s cam now ws ms"
  by (rule ext) (simp add: pair_alerts_def pair_near_def last_alert_def)

lemma proximity_detect_ids:
  "map (\<lambda>a. (alert_worker_id a, machine_id a)) (snd (proximity_detect s env cam now ms boxes))
     = map (\<lambda>p. (worker_id_of cam (fst p), machine_id_of cam (snd p)))
         (filter (pair_alerts s cam now (valid_workers boxes) ms)
            (List.product [0..<length (valid_workers boxes)] [0..<length ms]))"
  by (simp only: proximity_detect_alerts map_map comp_def pair_alert_ids)

text \<open>
  Claim C8. The alerts of a pass are the records of the pairs that are near and out of
  cooldown, taken in the order worker index ascending and, within a worker, machine index
  ascending. Which pairs alert, and in which order, is fixed by the boxes, the clock, the
  two thresholds and the cooldown entries of the camera: two passes that agree on these
  name the same workers and machines in the same order, whatever the environment answers
  for screenshots and timestamps and whatever the histories hold.
\<close>

theorem proximity_alerts_in_index_order:
  "snd (proximity_detect s env cam now ms boxes)
     = map (pair_alert env cam (valid_workers boxes) ms)
         (filter (pair_alerts s cam now (valid_workers boxes) ms)
            (List.product [0..<length (valid_workers boxes)] [0..<length ms])) \<and>
   sorted_wrt (\<lambda>p q. fst p < fst q \<or> fst p = fst q \<and> snd p < snd q)
     (filter (pair_alerts s cam now (valid_workers boxes) ms)
        (List.product [0..<length (valid_workers boxes)] [0..<length ms])) \<and>
   (proximity_threshold s' = proximity_threshold s \<and> alert_cooldown s' = alert_cooldown s \<and>
    alert_history s' cam = alert_history s cam \<longrightarrow>
      map (\<lambda>a. (alert_worker_id a, machine_id a)) (snd (proximity_detect s' env' cam now ms boxes))
        = map (\<lambda>a. (alert_worker_id a, machine_id a)) (snd (proximity_detect s env cam now ms boxes)))"
proof (intro conjI impI)
  show "snd (proximity_detect s env cam now ms boxes)
     = map (pair_alert env cam (valid_workers boxes) ms)
         (filter (pair_alerts s cam now (valid_workers boxes) ms)
            (List.product [0..<length (valid_workers boxes)] [0..<length ms]))"
    by (rule proximity_detect_alerts)
next
  show "sorted_wrt (\<lambda>p q. fst p < fst q \<or> fst p = fst q \<and> snd p < snd q)
     (filter (pair_alerts s cam now (valid_workers boxes) ms)
        (List.product [0..<length (valid_workers boxes)] [0..<length ms]))"
    by (rule sorted_index_pairs)
next
  assume "proximity_threshold s' = proximity_threshold s \<and> alert_cooldown s' = alert_cooldown s \<and>
    alert_history s' cam = alert_history s cam"
  then have eq: "pair_alerts s' cam now (valid_workers boxes) ms
           = pair_alerts s cam now (valid_workers boxes) ms"
    using pair_alerts_cong [of s' s cam now "valid_workers boxes" ms] by blast
  show "map (\<lambda>a. (alert_worker_id a, machine_id a)) (snd (proximity_detect s' env' cam now ms boxes))
        = map (\<lambda>a. (alert_worker_id a, machine_id a)) (snd (proximity_detect s env cam now ms boxes))"
    by (simp only: proximity_detect_ids eq)
qed

lemmas proximity_eval =
  init_proximity_def sample_workers_def sample_machinery_def sample_env_def valid_workers_def
  pair_alerts_def pair_near_def pair_alert_def last_alert_def distance_between_def center_def
  worker_id_of_def machine_id_of_def proximity_key_def str_nat.simps digit_char_def
  sqrt_less_iff_square

text \<open>
  Witness for C8: two workers and two machines, all four pairs near, no cooldown entry,
  clock at 100. The four alerts come worker 0 first, machine 0 before machine 1; a second
  detector with other histories and failing screenshots names the same pairs in the same
  order.
\<close>

theorem proximity_alerts_in_index_order_witness:
  "map (\<lambda>a. (alert_worker_id a, machine_id a))
     (snd (proximity_detect init_proximity sample_env 1 100 sample_machinery sample_workers))
     = [(''worker_1_0'', ''machine_1_0''), (''worker_1_0'', ''machine_1_1''),
        (''worker_1_1'', ''machine_1_0''), (''worker_1_1'', ''machine_1_1'')] \<and>
   map (\<lambda>a. (alert_worker_id a, machine_id a))
     (snd (proximity_detect (init_proximity\<lparr>machinery_positions := [7 \<mapsto> []]\<rparr>)
        (sample_env\<lparr>pair_shot := (\<lambda>i j. Raises)\<rparr>) 1 100 sample_machinery sample_workers))
     = map (\<lambda>a. (alert_worker_id a, machine_id a))
     (snd (proximity_detect init_proximity sample_env 1 100 sample_machinery sample_workers))"
proof -
  let ?s' = "init_proximity\<lparr>machinery_positions := [7 \<mapsto> []]\<rparr>"
  let ?env' = "sample_env\<lparr>pair_shot := (\<lambda>i j. Raises)\<rparr>"
  have same: "proximity_threshold ?s' = proximity_threshold init_proximity \<and>
      alert_cooldown ?s' = alert_cooldown init_proximity \<and>
      alert_history ?s' 1 = alert_history init_proximity 1"
    by simp
  have len: "length (valid_workers sample_workers) = 2" "length sample_machinery = 2"
    by (simp_all add: proximity_eval)
  have prod: "List.product [0..<2] [0..<2] = [(0, 0), (0, 1), (1, 0), (1 :: nat, 1 :: nat)]"
    by (simp add: upt_rec)
  have qual: "filter (pair_alerts init_proximity 1 100 (valid_workers sample_workers) sample_machinery)
        [(0, 0), (0, 1), (1, 0), (1, 1)] = [(0, 0), (0, 1), (1, 0), (1, 1)]"
    by (simp add: proximity_eval)
  from proximity_alerts_in_index_order
         [of init_proximity sample_env 1 100 sample_machinery sample_workers ?s' ?env']
  have out: "snd (proximity_detect init_proximity sample_env 1 100 sample_machinery sample_workers)
     = map (pair_alert sample_env 1 (valid_workers sample_workers) sample_machinery)
         [(0, 0), (0, 1), (1, 0), (1, 1)]"
    and indep: "map (\<lambda>a. (alert_worker_id a, machine_id a))
       (snd (proximity_detect ?s' ?env' 1 100 sample_machinery sample_workers))
     = map (\<lambda>a. (alert_worker_id a, machine_id a))
       (snd (proximity_detect init_proximity sample_env 1 100 sample_machinery sample_workers))"
    using same by (simp_all only: len prod qual simp_thms)
  have "map (\<lambda>a. (alert_worker_id a, machine_id a))
     (snd (proximity_detect init_proximity sample_env 1 100 sample_machinery sample_workers))
     = [(''worker_1_0'', ''machine_1_0''), (''worker_1_0'', ''machine_1_1''),
        (''worker_1_1'', ''machine_1_0''), (''worker_1_1'', ''machine_1_1'')]"
    by (subst out) (simp add: pair_alert_def worker_id_of_def machine_id_of_def str_nat.simps digit_char_def)
  with indep show ?thesis by blast
qed

lemma pair_near_after:
  "pair_near (fst (proximity_detect s env cam now ms boxes)) ws' ms' p = pair_near s ws' ms' p"
  by (simp add: pair_near_def proximity_detect_consts)

lemma last_alert_after:
  "last_alert (fst (proximity_detect s env cam now ms boxes)) cam (proximity_key cam i j)
     = (if pair_alerts s cam now (valid_workers boxes) ms (i, j) then now
        else last_alert s cam (proximity_key cam i j))"
  by (simp add: last_alert_def proximity_detect_last)

text \<open>
  Claim C3. In a pass, the pair of worker \<open>i\<close> and machine \<open>j\<close> of a camera gets one
  alert when it is near and the clock is at least the cooldown past the key's last alert
  time (0 for a key that never alerted), and none otherwise; the key's entry becomes the
  clock reading when the alert is emitted and is left as it was when not. So for two
  passes that both find the pair near, the first one out of cooldown: the two passes
  together emit two alerts for the pair when they are at least the cooldown apart, and one
  when they are closer.
\<close>

theorem proximity_cooldown_deduplicates:
  "length (filter (\<lambda>a. alert_worker_id a = worker_id_of cam i \<and> machine_id a = machine_id_of cam j)
      (snd (proximity_detect s env cam t1 ms boxes)))
     = (if pair_near s (valid_workers boxes) ms (i, j) \<and>
           alert_cooldown s \<le> t1 - last_alert s cam (proximity_key cam i j) then 1 else 0) \<and>
   alert_history (fst (proximity_detect s env cam t1 ms boxes)) cam (proximity_key cam i j)
     = (if pair_near s (valid_workers boxes) ms (i, j) \<and>
           alert_cooldown s \<le> t1 - last_alert s cam (proximity_key cam i j) then Some t1
        else alert_history s cam (proximity_key cam i j)) \<and>
   (pair_near s (valid_workers boxes) ms (i, j) \<and>
    pair_near s (valid_workers boxes') ms' (i, j) \<and>
    alert_cooldown s \<le> t1 - last_alert s cam (proximity_key cam i j) \<longrightarrow>
    length (filter (\<lambda>a. alert_worker_id a = worker_id_of cam i \<and> machine_id a = machine_id_of cam j)
      (snd (proximity_detect s env cam t1 ms boxes)
       @ snd (proximity_detect (fst (proximity_detect s env cam t1 ms boxes)) env' cam t2 ms' boxes')))
     = (if alert_cooldown s \<le> t2 - t1 then 2 else 1))"
proof (intro conjI impI)
  show "length (filter (\<lambda>a. alert_worker_id a = worker_id_of cam i \<and> machine_id a = machine_id_of cam j)
      (snd (proximity_detect s env cam t1 ms boxes)))
     = (if pair_near s (valid_workers boxes) ms (i, j) \<and>
           alert_cooldown s \<le> t1 - last_alert s cam (proximity_key cam i j) then 1 else 0)"
    by (simp add: proximity_detect_alerts_of_pair pair_alerts_def)
next
  show "alert_history (fst (proximity_detect s env cam t1 ms boxes)) cam (proximity_key cam i j)
     = (if pair_near s (valid_workers boxes) ms (i, j) \<and>
           alert_cooldown s \<le> t1 - last_alert s cam (proximity_key cam i j) then Some t1
        else alert_history s cam (proximity_key cam i j))"
    by (simp add: proximity_detect_last pair_alerts_def)
next
  let ?s1 = "fst (proximity_detect s env cam t1 ms boxes)"
  assume a: "pair_near s (valid_workers boxes) ms (i, j) \<and>
    pair_near s (valid_workers boxes') ms' (i, j) \<and>
    alert_cooldown s \<le> t1 - last_alert s cam (proximity_key cam i j)"
  then have first: "pair_alerts s cam t1 (valid_workers boxes) ms (i, j)"
    by (simp add: pair_alerts_def)
  then have "last_alert ?s1 cam (proximity_key cam i j) = t1"
    by (simp add: last_alert_after)
  then have second: "pair_alerts ?s1 cam t2 (valid_workers boxes') ms' (i, j)
      \<longleftrightarrow> alert_cooldown s \<le> t2 - t1"
    using a by (simp add: pair_alerts_def pair_near_after proximity_detect_consts)
  show "length (filter (\<lambda>a. alert_worker_id a = worker_id_of cam i \<and> machine_id a = machine_id_of cam j)
      (snd (proximity_detect s env cam t1 ms boxes)
       @ snd (proximity_detect ?s1 env' cam t2 ms' boxes')))
     = (if alert_cooldown s \<le> t2 - t1 then 2 else 1)"
    by (simp add: proximity_detect_alerts_of_pair first second)
qed

text \<open>
  Witness for C3: worker 0 and machine 0, 50 pixels apart, threshold 80, cooldown 5. Passes
  at 100 and 103 give one alert for the pair, passes at 100 and 106 give two.
\<close>

theorem proximity_cooldown_deduplicates_witness:
  "length (filter (\<lambda>a. alert_worker_id a = worker_id_of 1 0 \<and> machine_id a = machine_id_of 1 0)
      (snd (proximity_detect init_proximity sample_env 1 100 sample_machinery sample_workers)
       @ snd (proximity_detect
                (fst (proximity_detect init_proximity sample_env 1 100 sample_machinery sample_workers))
                sample_env 1 103 sample_machinery sample_workers))) = 1 \<and>
   length (filter (\<lambda>a. alert_worker_id a = worker_id_of 1 0 \<and> machine_id a = machine_id_of 1 0)
      (snd (proximity_detect init_proximity sample_env 1 100 sample_machinery sample_workers)
       @ snd (proximity_detect
                (fst (proximity_detect init_proximity sample_env 1 100 sample_machinery sample_workers))
                sample_env 1 106 sample_machinery sample_workers))) = 2 \<and>
   alert_history (fst (proximity_detect init_proximity sample_env 1 100 sample_machinery sample_workers))
      1 (proximity_key 1 0 0) = Some 100 \<and>
   distance_between (center (fst (sample_workers ! 0))) (center (sample_machinery ! 0)) = 50"
proof -
  have near: "pair_near init_proximity (valid_workers sample_workers) sample_machinery (0, 0)"
    by (simp add: proximity_eval)
  have ready: "alert_cooldown init_proximity
      \<le> 100 - last_alert init_proximity 1 (proximity_key 1 0 0)"
    by (simp add: init_proximity_def last_alert_def)
  have cd: "alert_cooldown init_proximity = 5" by (simp add: init_proximity_def)
  have dist: "distance_between (center (fst (sample_workers ! 0))) (center (sample_machinery ! 0)) = 50"
    by (simp add: sample_workers_def sample_machinery_def center_def distance_between_def)
  note inst = proximity_cooldown_deduplicates
         [of 1 0 0 init_proximity sample_env 100 sample_machinery sample_workers
             sample_workers sample_machinery sample_env]
  have hyp: "pair_near init_proximity (valid_workers sample_workers) sample_machinery (0, 0) \<and>
      pair_near init_proximity (valid_workers sample_workers) sample_machinery (0, 0) \<and>
      alert_cooldown init_proximity \<le> 100 - last_alert init_proximity 1 (proximity_key 1 0 0)"
    using near ready by simp
  have one: "length (filter (\<lambda>a. alert_worker_id a = worker_id_of 1 0 \<and> machine_id a = machine_id_of 1 0)
      (snd (proximity_detect init_proximity sample_env 1 100 sample_machinery sample_workers)
       @ snd (proximity_detect
                (fst (proximity_detect init_proximity sample_env 1 100 sample_machinery sample_workers))
                sample_env 1 103 sample_machinery sample_workers))) = 1"
    using inst [of 103, THEN conjunct2, THEN conjunct2, THEN mp, OF hyp] by (simp only: cd) simp
  have two: "length (filter (\<lambda>a. alert_worker_id a = worker_id_of 1 0 \<and> machine_id a = machine_id_of 1 0)
      (snd (proximity_detect init_proximity sample_env 1 100 sample_machinery sample_workers)
       @ snd (proximity_detect
                (fst (proximity_detect init_proximity sample_env 1 100 sample_machinery sample_workers))
                sample_env 1 106 sample_machinery sample_workers))) = 2"
    using inst [of 106, THEN conjunct2, THEN conjunct2, THEN mp, OF hyp] by (simp only: cd) simp
  have entry: "alert_history
      (fst (proximity_detect init_proximity sample_env 1 100 sample_machinery sample_workers))
      1 (proximity_key 1 0 0) = Some 100"
    using inst [of 103, THEN conjunct2, THEN conjunct1] near ready by (simp only: simp_thms if_True)
  from one two entry dist show ?thesis by (intro conjI)
qed

section \<open>Frames, sources and the registry\<close>

text \<open>
  Claim C5. \<^verbatim>\<open>get_frame\<close> always returns the address of an array of the store, one
  that was not allocated before the call: it is neither the source's \<^verbatim>\<open>last_frame\<close>
  nor any other existing array, and the call changes no existing array. The new array
  holds the placeholder with the source's name when no frame was ever produced, and the
  content of \<^verbatim>\<open>last_frame\<close> otherwise. Whatever the caller then writes into the
  returned array, \<^verbatim>\<open>last_frame\<close> holds what it held.
\<close>

theorem get_frame_returns_independent_copy:
  assumes "\<forall>p. last_frame c = Some p \<longrightarrow> p < length imgs"
  shows "fst (get_frame c imgs) < length (snd (get_frame c imgs)) \<and>
         length imgs \<le> fst (get_frame c imgs) \<and>
         last_frame c \<noteq> Some (fst (get_frame c imgs)) \<and>
         (\<forall>p < length imgs. snd (get_frame c imgs) ! p = imgs ! p) \<and>
         snd (get_frame c imgs) ! fst (get_frame c imgs)
           = (case last_frame c of
                None \<Rightarrow> PutText (Zeros 480 640 3) (name c @ '' - No Frame Available'') (50, 50)
              | Some p \<Rightarrow> imgs ! p) \<and>
         (\<forall>v p. last_frame c = Some p \<longrightarrow>
            (snd (get_frame c imgs))[fst (get_frame c imgs) := v] ! p = imgs ! p)"
proof (cases "last_frame c")
  case None
  then show ?thesis by (simp add: get_frame_def nth_append)
next
  case (Some p)
  with assms have "p < length imgs" by simp
  with Some show ?thesis by (simp add: get_frame_def nth_append)
qed

text \<open>
  Witness for C5: a source that cannot be opened, asked for a frame before any was
  produced, and a live source after its first decoded frame, whose copy the caller
  overwrites.
\<close>

theorem get_frame_returns_independent_copy_witness:
  "snd (get_frame (fst (new_ip_camera ''rtsp://example.com/live/stream'' (Some ''Camera-3'') 0 10 NotOpened []))
        (snd (new_ip_camera ''rtsp://example.com/live/stream'' (Some ''Camera-3'') 0 10 NotOpened [])))
     ! fst (get_frame (fst (new_ip_camera ''rtsp://example.com/live/stream'' (Some ''Camera-3'') 0 10 NotOpened []))
        (snd (new_ip_camera ''rtsp://example.com/live/stream'' (Some ''Camera-3'') 0 10 NotOpened [])))
     = PutText (Zeros 480 640 3) ''Camera-3 - No Frame Available'' (50, 50) \<and>
   last_frame (fst (snd (update_frame_iteration (ReadOk 7) Opened 11
      (fst (new_ip_camera ''0'' (Some ''Camera-0'') 0 10 Opened [])) []))) = Some 0 \<and>
   (snd (get_frame (fst (snd (update_frame_iteration (ReadOk 7) Opened 11
            (fst (new_ip_camera ''0'' (Some ''Camera-0'') 0 10 Opened [])) [])))
         (snd (snd (update_frame_iteration (ReadOk 7) Opened 11
            (fst (new_ip_camera ''0'' (Some ''Camera-0'') 0 10 Opened [])) [])))))
     [fst (get_frame (fst (snd (update_frame_iteration (ReadOk 7) Opened 11
            (fst (new_ip_camera ''0'' (Some ''Camera-0'') 0 10 Opened [])) [])))
         (snd (snd (update_frame_iteration (ReadOk 7) Opened 11
            (fst (new_ip_camera ''0'' (Some ''Camera-0'') 0 10 Opened [])) []))))
      := Zeros 1 1 1] ! 0 = Decoded 7"
proof -
  let ?off = "new_ip_camera ''rtsp://example.com/live/stream'' (Some ''Camera-3'') 0 10 NotOpened []"
  let ?live = "snd (update_frame_iteration (ReadOk 7) Opened 11
      (fst (new_ip_camera ''0'' (Some ''Camera-0'') 0 10 Opened [])) [])"
  have off: "last_frame (fst ?off) = None" and nm: "name (fst ?off) = ''Camera-3''"
    by (simp_all add: new_ip_camera_def connect_def setup_fallback_def)
  have live: "last_frame (fst ?live) = Some 0" and img: "snd ?live = [Decoded 7]"
    by (simp_all add: new_ip_camera_def connect_def update_frame_iteration_def)
  have h1: "\<forall>p. last_frame (fst ?off) = Some p \<longrightarrow> p < length (snd ?off)"
    using off by simp
  have h2: "\<forall>p. last_frame (fst ?live) = Some p \<longrightarrow> p < length (snd ?live)"
    using live img by simp
  from get_frame_returns_independent_copy [OF h1] off nm
  have a: "snd (get_frame (fst ?off) (snd ?off)) ! fst (get_frame (fst ?off) (snd ?off))
     = PutText (Zeros 480 640 3) ''Camera-3 - No Frame Available'' (50, 50)"
    by simp
  from get_frame_returns_independent_copy [OF h2] live img
  have b: "(snd (get_frame (fst ?live) (snd ?live)))
     [fst (get_frame (fst ?live) (snd ?live)) := Zeros 1 1 1] ! 0 = Decoded 7"
    by simp
  from a live b show ?thesis by (intro conjI)
qed

text \<open>
  Claim C7 at its failing input. Camera 0 is added twice, both sources opening. The second
  call returns true and the dictionary then holds the second object; the first object is
  as the first call left it: running, its capture open, its fetch thread started. The
  sibling \<^verbatim>\<open>remove_camera\<close> does release the object it drops.
\<close>

theorem add_camera_leaves_old_source_running:
  "fst (add_camera 0 ''rtsp://b'' None 20 Opened
          (snd (add_camera 0 ''rtsp://a'' None 10 Opened init_site))) = True \<and>
   cameras (snd (add_camera 0 ''rtsp://a'' None 10 Opened init_site)) 0 = Some 0 \<and>
   cameras (snd (add_camera 0 ''rtsp://b'' None 20 Opened
          (snd (add_camera 0 ''rtsp://a'' None 10 Opened init_site)))) 0 = Some 1 \<and>
   url (sources (snd (add_camera 0 ''rtsp://b'' None 20 Opened
          (snd (add_camera 0 ''rtsp://a'' None 10 Opened init_site)))) ! 0) = ''rtsp://a'' \<and>
   is_running (sources (snd (add_camera 0 ''rtsp://b'' None 20 Opened
          (snd (add_camera 0 ''rtsp://a'' None 10 Opened init_site)))) ! 0) = True \<and>
   cap (sources (snd (add_camera 0 ''rtsp://b'' None 20 Opened
          (snd (add_camera 0 ''rtsp://a'' None 10 Opened init_site)))) ! 0)
     = Some \<lparr>is_opened = True\<rparr> \<and>
   fetch_threads (sources (snd (add_camera 0 ''rtsp://b'' None 20 Opened
          (snd (add_camera 0 ''rtsp://a'' None 10 Opened init_site)))) ! 0) = 1 \<and>
   is_running (sources (snd (remove_camera 0
          (snd (add_camera 0 ''rtsp://a'' None 10 Opened init_site)))) ! 0) = False \<and>
   cap (sources (snd (remove_camera 0
          (snd (add_camera 0 ''rtsp://a'' None 10 Opened init_site)))) ! 0)
     = Some \<lparr>is_opened = False\<rparr>"
  by (simp add: add_camera_def remove_camera_def release_def init_site_def new_ip_camera_def
      connect_def Let_def)

text \<open>
  Claim C10 at its failing inputs. In an iteration of the fetch loop the frame lock is
  held during the read itself, and after a failed read also during the release of the
  capture, the sleep of one second and the reopening. Only the half-second sleep of the
  exception handler is outside the lock. The sibling loop of the fallback mode holds the
  lock for publishing only and sleeps without it.
\<close>

theorem fetch_loop_blocks_while_locked:
  "while_locked False (fst (update_frame_iteration (ReadOk n) reopen now c imgs))
     = [CapRead, Publish] \<and>
   while_locked False (fst (update_frame_iteration ReadFailed Opened now c imgs))
     = [CapRead, Log, CapRelease, Sleep 1, Reopen] \<and>
   while_locked False (fst (update_frame_iteration ReadFailed NotOpened now c imgs))
     = [CapRead, Log, CapRelease, Sleep 1, Reopen, Log, SetupFallback] \<and>
   while_locked False (fst (update_frame_iteration ReadRaised reopen now c imgs)) = [CapRead] \<and>
   while_locked False (fst (update_fallback_iteration now c imgs))
     = (if 0.5 < now - fallback_last_time c then [Publish] else [])"
  by (simp add: update_frame_iteration_def update_fallback_iteration_def Let_def)

end
